theory Spec2Isabelle
  imports Main "HOL-Library.Char_ord" "HOL-Library.List_Lexorder" "HOL-Library.Product_Lexorder"
begin

section \<open>Strings\<close>

text \<open>
  A JavaScript string is modelled as a \<open>string\<close> whose characters are the code units
  below 256 (ASCII and Latin-1). \<open>String.prototype.trim\<close> removes white space and line
  terminators from both ends; \<open>String.prototype.toLowerCase\<close> maps the upper-case
  letters of that range to their lower-case partners.
\<close>

definition isWhiteSpace :: "char \<Rightarrow> bool" where
  "isWhiteSpace c = (c \<in> set [CHR 0x09, CHR 0x0A, CHR 0x0B, CHR 0x0C, CHR 0x0D, CHR 0x20, CHR 0xA0])"

definition trim :: "string \<Rightarrow> string" where
  "trim s = rev (dropWhile isWhiteSpace (rev (dropWhile isWhiteSpace s)))"

definition toLowerChar :: "char \<Rightarrow> char" where
  "toLowerChar c =
     (let n = (of_char c :: nat) in
      if (65 \<le> n \<and> n \<le> 90) \<or> (192 \<le> n \<and> n \<le> 222 \<and> n \<noteq> 215)
      then char_of (n + 32) else c)"

definition toLowerCase :: "string \<Rightarrow> string" where
  "toLowerCase s = map toLowerChar s"

definition isDigit :: "char \<Rightarrow> bool" where
  "isDigit c = (CHR ''0'' \<le> c \<and> c \<le> CHR ''9'')"

definition isLetter :: "char \<Rightarrow> bool" where
  "isLetter c = ((CHR ''a'' \<le> c \<and> c \<le> CHR ''z'') \<or> (CHR ''A'' \<le> c \<and> c \<le> CHR ''Z''))"

text \<open>\<open>splitOn d s\<close> is \<open>s.split(d)\<close> for a one-character separator.\<close>

fun splitOn :: "char \<Rightarrow> string \<Rightarrow> string list" where
  "splitOn d [] = [[]]"
| "splitOn d (c # cs) =
     (if c = d then [] # splitOn d cs
      else (case splitOn d cs of [] \<Rightarrow> [[c]] | w # ws \<Rightarrow> (c # w) # ws))"

fun join :: "string \<Rightarrow> string list \<Rightarrow> string" where
  "join d [] = []"
| "join d [w] = w"
| "join d (w # ws) = w @ d @ join d ws"

text \<open>A number printed in a template string, and a digit string read by unary \<open>+\<close>.\<close>

definition digitChar :: "nat \<Rightarrow> char" where
  "digitChar n = char_of (48 + n)"

fun showNat :: "nat \<Rightarrow> string" where
  "showNat n = (if n < 10 then [digitChar n] else showNat (n div 10) @ [digitChar (n mod 10)])"

declare showNat.simps [simp del]

definition digitVal :: "char \<Rightarrow> nat" where
  "digitVal c = of_char c - 48"

definition readNat :: "string \<Rightarrow> nat" where
  "readNat ds = foldl (\<lambda>a c. 10 * a + digitVal c) 0 ds"

section \<open>The semver library, as getCheckovVersion uses it\<close>

text \<open>
  \<open>semver.valid\<close>, \<open>semver.clean\<close> and \<open>semver.satisfies\<close> come from the npm package
  \<open>semver\<close>. Its strict grammar is
  \<^verbatim>\<open>^v?MAJOR.MINOR.PATCH(-PRERELEASE)?(+BUILD)?$\<close>:
  the three main components are numeric identifiers (\<open>0\<close> or a digit string without a
  leading zero, at most \<open>Number.MAX_SAFE_INTEGER\<close>), a prerelease is a dot-separated
  list of identifiers over \<open>[0-9A-Za-z-]\<close> whose all-digit members have no leading zero,
  and a build is a dot-separated list of nonempty identifiers over \<open>[0-9A-Za-z-]\<close>.
  A version string longer than 256 characters is refused.
\<close>

record semver =
  major :: nat
  minor :: nat
  patch :: nat
  prerelease :: "string list"
  build :: "string list"

definition MAX_LENGTH :: nat where
  "MAX_LENGTH = 256"

definition MAX_SAFE_INTEGER :: nat where
  "MAX_SAFE_INTEGER = 9007199254740991"

definition isNumericIdentifier :: "string \<Rightarrow> bool" where
  "isNumericIdentifier w = (w \<noteq> [] \<and> list_all isDigit w \<and> (w = ''0'' \<or> hd w \<noteq> CHR ''0''))"

definition isIdentChar :: "char \<Rightarrow> bool" where
  "isIdentChar c = (isDigit c \<or> isLetter c \<or> c = CHR ''-'')"

definition isPrereleaseIdentifier :: "string \<Rightarrow> bool" where
  "isPrereleaseIdentifier w =
     (w \<noteq> [] \<and> list_all isIdentChar w \<and> (list_all isDigit w \<longrightarrow> isNumericIdentifier w))"

definition isBuildIdentifier :: "string \<Rightarrow> bool" where
  "isBuildIdentifier w = (w \<noteq> [] \<and> list_all isIdentChar w)"

text \<open>
  \<open>cutAt d s\<close> cuts \<open>s\<close> at the first \<open>d\<close>: the part before it, and the part after
  it when there is one.
\<close>

definition cutAt :: "char \<Rightarrow> string \<Rightarrow> string \<times> string option" where
  "cutAt d s =
     (let a = takeWhile (\<lambda>c. c \<noteq> d) s; b = dropWhile (\<lambda>c. c \<noteq> d) s
      in (a, if b = [] then None else Some (tl b)))"

text \<open>The optional \<open>v\<close> that the grammar allows in front of a version.\<close>

definition stripV :: "string \<Rightarrow> string" where
  "stripV s = (case s of c # cs \<Rightarrow> if c = CHR ''v'' then cs else s | [] \<Rightarrow> s)"

text \<open>
  \<open>matchFULL s\<close> is the match of \<open>s\<close> against the strict grammar: the three main
  components, the prerelease and the build as the groups of the regular expression.
\<close>

definition matchFULL :: "string \<Rightarrow> (string \<times> string \<times> string \<times> string option \<times> string option) option" where
  "matchFULL s =
     (let s1 = stripV s;
          (mp, bld) = cutAt CHR ''+'' s1;
          (mainPart, pre) = cutAt CHR ''-'' mp
      in (case splitOn CHR ''.'' mainPart of
            [a, b, c] \<Rightarrow>
              if isNumericIdentifier a \<and> isNumericIdentifier b \<and> isNumericIdentifier c
                 \<and> (case pre of None \<Rightarrow> True
                     | Some p \<Rightarrow> list_all isPrereleaseIdentifier (splitOn CHR ''.'' p))
                 \<and> (case bld of None \<Rightarrow> True
                     | Some p \<Rightarrow> list_all isBuildIdentifier (splitOn CHR ''.'' p))
              then Some (a, b, c, pre, bld)
              else None
          | _ \<Rightarrow> None))"

text \<open>The constructor of a SemVer object; \<open>None\<close> where it throws.\<close>

definition parseSemver :: "string \<Rightarrow> semver option" where
  "parseSemver version =
     (if length version > MAX_LENGTH then None
      else
        (case matchFULL (trim version) of
           None \<Rightarrow> None
         | Some (a, b, c, pre, bld) \<Rightarrow>
             if readNat a > MAX_SAFE_INTEGER \<or> readNat b > MAX_SAFE_INTEGER
                \<or> readNat c > MAX_SAFE_INTEGER
             then None
             else Some \<lparr> major = readNat a, minor = readNat b, patch = readNat c,
                         prerelease = (case pre of None \<Rightarrow> [] | Some p \<Rightarrow> splitOn CHR ''.'' p),
                         build = (case bld of None \<Rightarrow> [] | Some p \<Rightarrow> splitOn CHR ''.'' p) \<rparr>))"

text \<open>The \<open>version\<close> field of a SemVer object: the canonical text, without the build.\<close>

definition formatSemver :: "semver \<Rightarrow> string" where
  "formatSemver v =
     showNat (major v) @ ''.'' @ showNat (minor v) @ ''.'' @ showNat (patch v)
     @ (if prerelease v = [] then [] else ''-'' @ join ''.'' (prerelease v))"

definition semver_valid :: "string \<Rightarrow> string option" where
  "semver_valid version = map_option formatSemver (parseSemver version)"

text \<open>\<open>semver.clean\<close>: trim, drop a leading run of \<open>=\<close> and \<open>v\<close>, then parse.\<close>

definition semver_clean :: "string \<Rightarrow> string option" where
  "semver_clean version =
     map_option formatSemver
       (parseSemver (dropWhile (\<lambda>c. c = CHR ''='' \<or> c = CHR ''v'') (trim version)))"

text \<open>
  \<open>semver.satisfies version (''>='' + m)\<close> for a minimum \<open>m\<close> without prerelease tag, as
  \<open>minCheckovVersion\<close> is: the range is the single comparator \<open>>= m\<close>. A version that
  does not parse does not satisfy it; a version with a prerelease tag does not satisfy it
  either, because no comparator of the range carries a prerelease on the same
  major.minor.patch; any other version satisfies it when its main triple is at least
  that of \<open>m\<close>.
\<close>

definition compareMain :: "semver \<Rightarrow> semver \<Rightarrow> int" where
  "compareMain a b =
     (if major a < major b then -1 else if major a > major b then 1
      else if minor a < minor b then -1 else if minor a > minor b then 1
      else if patch a < patch b then -1 else if patch a > patch b then 1
      else 0)"

definition semver_satisfies_ge :: "string \<Rightarrow> string \<Rightarrow> bool" where
  "semver_satisfies_ge version m =
     (case parseSemver m of
        None \<Rightarrow> False
      | Some mv \<Rightarrow>
          (case parseSemver version of
             None \<Rightarrow> False
           | Some v \<Rightarrow> prerelease mv = [] \<and> prerelease v = [] \<and> compareMain v mv \<ge> 0))"

section \<open>configuration.ts\<close>

text \<open>
  The workspace configuration section \<open>checkov\<close>: a setting that is not set reads as
  \<open>None\<close> (JavaScript \<open>undefined\<close>), and \<open>get\<close> with a default returns the default then.
\<close>

record configuration =
  cfg_token :: "string option"
  cfg_prismaURL :: "string option"
  cfg_certificate :: "string option"
  cfg_useBridgecrewIDs :: "bool option"
  cfg_checkovVersion :: "string option"
  cfg_disableErrorMessage :: "bool option"

datatype error = Error string

definition minCheckovVersion :: string where
  "minCheckovVersion = ''2.0.0''"

definition normalizedVersion :: "configuration \<Rightarrow> string" where
  "normalizedVersion cfg =
     toLowerCase (trim (case cfg_checkovVersion cfg of None \<Rightarrow> ''latest'' | Some v \<Rightarrow> v))"

definition getCheckovVersion :: "configuration \<Rightarrow> error + string" where
  "getCheckovVersion cfg =
     (let checkovVersion = normalizedVersion cfg in
      if checkovVersion = '''' \<or> checkovVersion = ''latest'' then Inr ''latest''
      else if semver_valid checkovVersion = None
        then Inl (Error (''Invalid checkov version: '' @ checkovVersion))
      else (case semver_clean checkovVersion of
              None \<Rightarrow> Inl (Error (''Invalid checkov version: '' @ checkovVersion))
            | Some clean \<Rightarrow>
                if \<not> semver_satisfies_ge checkovVersion minCheckovVersion
                then Inl (Error (''Invalid checkov version: '' @ checkovVersion
                                 @ '' (must be >='' @ minCheckovVersion @ '')''))
                else Inr clean))"

definition falsy :: "string option \<Rightarrow> bool" where
  "falsy v = (v = None \<or> v = Some '''')"

definition getPrismaUrl :: "configuration \<Rightarrow> string option" where
  "getPrismaUrl cfg = cfg_prismaURL cfg"

definition getPathToCert :: "configuration \<Rightarrow> string option" where
  "getPathToCert cfg = cfg_certificate cfg"

definition getUseBcIds :: "configuration \<Rightarrow> bool option" where
  "getUseBcIds cfg = Some (case cfg_useBridgecrewIDs cfg of None \<Rightarrow> False | Some b \<Rightarrow> b)"

definition shouldDisableErrorMessage :: "configuration \<Rightarrow> bool" where
  "shouldDisableErrorMessage cfg = (case cfg_disableErrorMessage cfg of None \<Rightarrow> False | Some b \<Rightarrow> b)"

section \<open>The data of extension.ts\<close>

text \<open>
  A text document is known by its uri and file name; \<open>doc_lineCount\<close> is the number of
  lines it has. A text editor is modelled by the document it shows, a \<open>vscode.Uri\<close> by
  its \<open>fsPath\<close>.
\<close>

record document =
  doc_uri :: string
  doc_fileName :: string
  doc_lineCount :: nat

text \<open>
  A \<open>CheckovInstallation\<close>. The command that installs Checkov mutates the object it
  created after a later \<open>await\<close>, so the object carries an identity \<open>inst_id\<close>.
\<close>

record checkovInstallation =
  inst_id :: nat
  checkovInstallationMethod :: string
  checkovPath :: string
  inst_version :: "string option"

text \<open>
  Modelled from the spec: the types of the failed checks of a scan and of the diagnostics
  are declared outside the source given. A finding and the diagnostic shown for it have
  the fields of section 3.
\<close>

record finding =
  ruleId :: string
  filePath :: string
  startLine :: nat
  endLine :: nat
  severity :: string
  guidelineUrl :: "string option"
  suggestedFix :: "string option"

record diagnostic =
  d_ruleId :: string
  d_filePath :: string
  d_startLine :: nat
  d_endLine :: nat
  d_severity :: string
  d_guidelineUrl :: "string option"

text \<open>The status bar item, with the version of Checkov it is given.\<close>

datatype statusBarItem =
    Initialized
  | Syncing "string option" string
  | Ready "string option"
  | ErrorStatus "string option"
  | Passed "string option"
  | MissingConfiguration "string option"

text \<open>The arguments of one call of \<open>runScan\<close>; the cancellation token is the number of its source.\<close>

record scanArgs =
  sa_editor :: document
  sa_token :: string
  sa_certPath :: "string option"
  sa_useBcIds :: "bool option"
  sa_cancelToken :: nat
  sa_checkovVersion :: string
  sa_prismaUrl :: "string option"
  sa_fileUri :: "string option"

text \<open>
  One call of \<open>runCheckovScan\<close>: its arguments, and in \<open>run_scannedText\<close> the text that
  the temporary file holds at that moment when it is the file to scan.
\<close>

record checkovCall =
  run_installation :: checkovInstallation
  run_extensionVersion :: string
  run_filePath :: string
  run_token :: string
  run_certPath :: "string option"
  run_useBcIds :: "bool option"
  run_cancelToken :: nat
  run_configPath :: "string option"
  run_checkovVersion :: string
  run_prismaUrl :: "string option"
  run_scannedText :: "string option"

text \<open>What the extension does to its collaborators, in the order it does it.\<close>

datatype effect =
    LogInfo string
  | LogDebug string
  | LogWarn string
  | LogError string
  | ShowWarningMessage string
  | ShowErrorMessage string
  | ShowContactUsDetails
  | SetStatusBar statusBarItem
  | SetDiagnostics string "diagnostic list"
  | SaveCheckovResult "finding list"
  | RunCheckovScan checkovCall
  | InstallOrUpdateCheckov string
  | RunVersionCommand string string
  | WriteFile string string
  | CommandRejected error

text \<open>
  The state that \<open>debounce\<close> of lodash keeps for the function it wraps, here with
  \<open>wait = 300\<close> and the options \<open>{}\<close>: no leading call, a trailing call, no
  \<open>maxWait\<close>. \<open>timerId\<close> is the time at which the pending timer is due.
\<close>

record debounced =
  lastArgs :: "scanArgs option"
  lastCallTime :: "nat option"
  lastInvokeTime :: nat
  timerId :: "nat option"

definition wait :: nat where
  "wait = 300"

text \<open>
  The variables of \<open>activate\<close>, the editor's state that the handlers read, and the calls
  that are waiting for a promise: \<open>inFlight\<close> are the calls of \<open>runCheckovScan\<close> not yet
  settled, \<open>pendingWrites\<close> the texts being written to the temporary file,
  \<open>pendingInstalls\<close> and \<open>pendingVersionCommands\<close> the two awaits of the installation
  command with the variables they captured.
\<close>

record state =
  extensionReady :: bool
  checkovRunCancelTokenSource :: nat
  checkovInstallation :: "checkovInstallation option"
  nextInstallationId :: nat
  diagnostics :: "string \<Rightarrow> diagnostic list"
  workspaceState :: "finding list"
  statusBar :: statusBarItem
  runScanDebounced :: debounced
  inFlight :: "scanArgs list"
  pendingWrites :: "string list"
  pendingInstalls :: "string list"
  pendingVersionCommands :: "(checkovInstallation \<times> string) list"
  tempFile :: "string option"
  activeTextEditor :: "document option"
  config :: configuration
  effects :: "effect list"

text \<open>
  The functions and values that extension.ts imports from modules outside the source
  given, taken as parameters.
\<close>

record host =
  isSupportedFileType :: "string \<Rightarrow> bool \<Rightarrow> bool"
  getTokenType :: "string \<Rightarrow> string"
  getConfigFilePath :: "string option"
  globalStoragePath :: string
  extensionVersion :: string

definition tempScanFile :: string where
  "tempScanFile = ''temp.tf''"

definition tempFileUri :: "host \<Rightarrow> string" where
  "tempFileUri env = globalStoragePath env @ ''/'' @ tempScanFile"

section \<open>User interface, diagnostics and the scanner\<close>

definition emit :: "effect list \<Rightarrow> state \<Rightarrow> state" where
  "emit es s = s\<lparr>effects := effects s @ es\<rparr>"

text \<open>
  Modelled from the spec: the functions of ./userInterface are not in the source given.
  Each sets the status bar item to the state that its name says (the UI states of
  section 4.1), for the version of Checkov it is given.
\<close>

definition setStatusBarItem :: "statusBarItem \<Rightarrow> state \<Rightarrow> state" where
  "setStatusBarItem item s = emit [SetStatusBar item] (s\<lparr>statusBar := item\<rparr>)"

definition setReadyStatusBarItem :: "string option \<Rightarrow> state \<Rightarrow> state" where
  "setReadyStatusBarItem v = setStatusBarItem (Ready v)"

definition setErrorStatusBarItem :: "string option \<Rightarrow> state \<Rightarrow> state" where
  "setErrorStatusBarItem v = setStatusBarItem (ErrorStatus v)"

definition setPassedStatusBarItem :: "string option \<Rightarrow> state \<Rightarrow> state" where
  "setPassedStatusBarItem v = setStatusBarItem (Passed v)"

definition setSyncingStatusBarItem :: "string option \<Rightarrow> string \<Rightarrow> state \<Rightarrow> state" where
  "setSyncingStatusBarItem v txt = setStatusBarItem (Syncing v txt)"

definition setMissingConfigurationStatusBarItem :: "string option \<Rightarrow> state \<Rightarrow> state" where
  "setMissingConfigurationStatusBarItem v = setStatusBarItem (MissingConfiguration v)"

text \<open>\<open>checkovInstallation?.version\<close>\<close>

definition installedVersion :: "state \<Rightarrow> string option" where
  "installedVersion s = (case checkovInstallation s of None \<Rightarrow> None | Some i \<Rightarrow> inst_version i)"

text \<open>
  Modelled from the spec: \<open>applyDiagnostics\<close> of ./diagnostics is not in the source
  given. Its mapping is the Result Mapper of section 4.4: every finding becomes one
  diagnostic, a line outside the document is clamped to the nearest valid line, and the
  diagnostics are ordered by (filePath, startLine, ruleId) ascending.
\<close>

definition clampLine :: "document \<Rightarrow> nat \<Rightarrow> nat" where
  "clampLine doc l = max 1 (min l (doc_lineCount doc))"

definition toDiagnostic :: "document \<Rightarrow> finding \<Rightarrow> diagnostic" where
  "toDiagnostic doc f =
     \<lparr> d_ruleId = ruleId f, d_filePath = filePath f,
       d_startLine = clampLine doc (startLine f), d_endLine = clampLine doc (endLine f),
       d_severity = severity f, d_guidelineUrl = guidelineUrl f \<rparr>"

definition diagnosticKey :: "diagnostic \<Rightarrow> string \<times> nat \<times> string" where
  "diagnosticKey d = (d_filePath d, d_startLine d, d_ruleId d)"

definition resultMapper :: "document \<Rightarrow> finding list \<Rightarrow> diagnostic list" where
  "resultMapper doc fs = sort_key diagnosticKey (map (toDiagnostic doc) fs)"

text \<open>
  Modelled from the spec: \<open>applyDiagnostics\<close> hands the diagnostics that the Result
  Mapper makes of the failed checks to the diagnostics sink, which replaces the sequence
  that the document had (section 6).
\<close>

definition applyDiagnostics :: "document \<Rightarrow> finding list \<Rightarrow> state \<Rightarrow> state" where
  "applyDiagnostics doc failedChecks s =
     (let ds = resultMapper doc failedChecks
      in emit [SetDiagnostics (doc_uri doc) ds]
           (s\<lparr>diagnostics := (diagnostics s)(doc_uri doc := ds)\<rparr>))"

text \<open>
  \<open>saveCheckovResult\<close> of ./utils is not in the source given either: the model records
  the call and keeps the failed checks it is given as the workspace state.
\<close>

definition saveCheckovResult :: "finding list \<Rightarrow> state \<Rightarrow> state" where
  "saveCheckovResult failedChecks s =
     emit [SaveCheckovResult failedChecks] (s\<lparr>workspaceState := failedChecks\<rparr>)"

text \<open>
  Cancellation token sources are numbered in the order \<open>activate\<close> creates them, and
  \<open>checkovRunCancelTokenSource\<close> is the number of the current one. A source is cancelled
  only by \<open>resetCancelTokenSource\<close>, which cancels the current source and makes the next
  one current: the token of source \<open>k\<close> is cancelled exactly when \<open>k\<close> is below the
  current source.
\<close>

definition isCancellationRequested :: "state \<Rightarrow> nat \<Rightarrow> bool" where
  "isCancellationRequested s k = (k < checkovRunCancelTokenSource s)"

definition resetCancelTokenSource :: "state \<Rightarrow> state" where
  "resetCancelTokenSource s =
     s\<lparr>checkovRunCancelTokenSource := Suc (checkovRunCancelTokenSource s)\<rparr>"

text \<open>
  Modelled from the spec: \<open>runCheckovScan\<close> of ./checkovRunner is not in the source given.
  It is the Scanner Invoker of section 4.3: what the external scanner produced is its
  result (\<open>Some\<close> the failed checks) or its failure (\<open>None\<close>), but once cancellation has
  been signalled on its token the call is abandoned and fails; it never returns a result
  after cancellation.
\<close>

definition runCheckovScan :: "bool \<Rightarrow> finding list option \<Rightarrow> finding list option" where
  "runCheckovScan cancelled produced = (if cancelled then None else produced)"

section \<open>configuration.ts: assureTokenSet\<close>

definition assureTokenSet :: "host \<Rightarrow> state \<Rightarrow> string option \<times> state" where
  "assureTokenSet env s =
     (let token = cfg_token (config s) in
      if falsy token then
        (token,
         setMissingConfigurationStatusBarItem (installedVersion s)
           (emit [LogError ''Bridgecrew API token was not found. Please add it to the configuration.'',
                  ShowErrorMessage ''Bridgecrew API token was not found. Please add it to the configuration in order to scan your code.''] s))
      else if getTokenType env (the token) = ''prisma'' \<and> falsy (getPrismaUrl (config s)) then
        (token,
         setMissingConfigurationStatusBarItem (installedVersion s)
           (emit [LogError ''Prisma token was identified but no Prisma URL was found'',
                  ShowErrorMessage ''Prisma token was identified but no Prisma URL was found. In order to authenticate with your app you must provide Prisma URL''] s))
      else (token, s))"

section \<open>extension.ts: runScan\<close>

text \<open>
  The call of \<open>runCheckovScan\<close> that the wrapped function makes for its arguments
  \<open>a\<close>, with the installation \<open>inst\<close>.
\<close>

definition checkovCallOf :: "host \<Rightarrow> scanArgs \<Rightarrow> state \<Rightarrow> checkovInstallation \<Rightarrow> checkovCall" where
  "checkovCallOf env a s inst =
     (let fp = (case sa_fileUri a of Some u \<Rightarrow> u | None \<Rightarrow> doc_fileName (sa_editor a))
      in \<lparr> run_installation = inst, run_extensionVersion = extensionVersion env,
           run_filePath = fp, run_token = sa_token a, run_certPath = sa_certPath a,
           run_useBcIds = sa_useBcIds a, run_cancelToken = sa_cancelToken a,
           run_configPath = getConfigFilePath env, run_checkovVersion = sa_checkovVersion a,
           run_prismaUrl = sa_prismaUrl a,
           run_scannedText = (if fp = tempFileUri env then tempFile s else None) \<rparr>)"

text \<open>
  The function that \<open>debounce\<close> wraps, up to its \<open>await\<close>: it starts the scanner unless
  Checkov is not installed.
\<close>

definition runScan_func :: "host \<Rightarrow> scanArgs \<Rightarrow> state \<Rightarrow> state" where
  "runScan_func env a s =
     (let s1 = emit [LogInfo ''Starting to scan.''] s;
          s2 = setSyncingStatusBarItem (installedVersion s1) ''Checkov scanning'' s1
      in case checkovInstallation s2 of
           None \<Rightarrow> emit [LogError ''Checkov is not installed, aborting scan.''] s2
         | Some inst \<Rightarrow>
             emit [RunCheckovScan (checkovCallOf env a s2 inst)]
               (s2\<lparr>inFlight := inFlight s2 @ [a]\<rparr>))"

text \<open>The \<open>catch\<close> block of the wrapped function.\<close>

definition runScan_catch :: "scanArgs \<Rightarrow> state \<Rightarrow> state" where
  "runScan_catch a s =
     (if isCancellationRequested s (sa_cancelToken a) then s
      else
        let s1 = setErrorStatusBarItem (installedVersion s) s;
            s2 = emit [LogError ''Error occurred while running a checkov scan''] s1
        in if \<not> shouldDisableErrorMessage (config s2) then emit [ShowContactUsDetails] s2 else s2)"

text \<open>The wrapped function after its \<open>await\<close>, when the call of the scanner has settled.\<close>

definition runScan_resume :: "scanArgs \<Rightarrow> finding list option \<Rightarrow> state \<Rightarrow> state" where
  "runScan_resume a produced s =
     (case runCheckovScan (isCancellationRequested s (sa_cancelToken a)) produced of
        Some failedChecks \<Rightarrow>
          (let s1 = saveCheckovResult failedChecks s;
               s2 = applyDiagnostics (sa_editor a) failedChecks s1
           in if length failedChecks > 0 then setErrorStatusBarItem (installedVersion s2) s2
              else setPassedStatusBarItem (installedVersion s2) s2)
      | None \<Rightarrow> runScan_catch a s)"

text \<open>
  \<open>debounce\<close> of lodash, which is outside the source given and is written here after
  its own source. \<open>shouldInvoke\<close>, \<open>remainingWait\<close>, \<open>invokeFunc\<close>, \<open>trailingEdge\<close>
  and \<open>timerExpired\<close> are its inner functions, and \<open>runScan\<close> is the debounced function
  itself, called at time \<open>time\<close>. In \<open>shouldInvoke\<close> the test \<open>time < lc\<close> is the test
  that the time since the last call is negative. The promise that the debounced function
  returns is the one of the last invocation; the scan command awaits it and does nothing
  after it, so it is left out.
\<close>

definition shouldInvoke :: "debounced \<Rightarrow> nat \<Rightarrow> bool" where
  "shouldInvoke d time =
     (case lastCallTime d of
        None \<Rightarrow> True
      | Some lc \<Rightarrow> lc + wait \<le> time \<or> time < lc)"

definition remainingWait :: "debounced \<Rightarrow> nat \<Rightarrow> nat" where
  "remainingWait d time = (case lastCallTime d of None \<Rightarrow> wait | Some lc \<Rightarrow> wait - (time - lc))"

definition invokeFunc :: "host \<Rightarrow> nat \<Rightarrow> state \<Rightarrow> state" where
  "invokeFunc env time s =
     (case lastArgs (runScanDebounced s) of
        None \<Rightarrow> s
      | Some a \<Rightarrow>
          runScan_func env a
            (s\<lparr>runScanDebounced := (runScanDebounced s)\<lparr>lastArgs := None, lastInvokeTime := time\<rparr>\<rparr>))"

definition trailingEdge :: "host \<Rightarrow> nat \<Rightarrow> state \<Rightarrow> state" where
  "trailingEdge env time s =
     (let s1 = s\<lparr>runScanDebounced := (runScanDebounced s)\<lparr>timerId := None\<rparr>\<rparr>
      in if lastArgs (runScanDebounced s1) \<noteq> None then invokeFunc env time s1
         else s1\<lparr>runScanDebounced := (runScanDebounced s1)\<lparr>lastArgs := None\<rparr>\<rparr>)"

definition timerExpired :: "host \<Rightarrow> nat \<Rightarrow> state \<Rightarrow> state" where
  "timerExpired env time s =
     (if shouldInvoke (runScanDebounced s) time then trailingEdge env time s
      else s\<lparr>runScanDebounced :=
               (runScanDebounced s)\<lparr>timerId := Some (time + remainingWait (runScanDebounced s) time)\<rparr>\<rparr>)"

definition runScan :: "scanArgs \<Rightarrow> nat \<Rightarrow> state \<Rightarrow> state" where
  "runScan a time s =
     (let d = runScanDebounced s;
          isInvoking = shouldInvoke d time;
          d1 = d\<lparr>lastArgs := Some a, lastCallTime := Some time\<rparr>
      in if isInvoking \<and> timerId d1 = None
         then s\<lparr>runScanDebounced := d1\<lparr>lastInvokeTime := time, timerId := Some (time + wait)\<rparr>\<rparr>
         else if timerId d1 = None
         then s\<lparr>runScanDebounced := d1\<lparr>timerId := Some (time + wait)\<rparr>\<rparr>
         else s\<lparr>runScanDebounced := d1\<rparr>)"

section \<open>extension.ts: the commands\<close>

text \<open>
  \<open>vscode.commands.executeCommand\<close> of a command that the extension registered itself
  calls the handler at once, so a handler that executes another command is modelled as
  calling it. A handler that throws leaves the state as it was at the \<open>throw\<close>, and the
  promise of the command is rejected.
\<close>

definition removeDiagnosticsCommand :: "state \<Rightarrow> state" where
  "removeDiagnosticsCommand s =
     (case activeTextEditor s of
        None \<Rightarrow> s
      | Some doc \<Rightarrow> applyDiagnostics doc [] (setReadyStatusBarItem (installedVersion s) s))"

definition runFileScanCommand :: "host \<Rightarrow> string option \<Rightarrow> nat \<Rightarrow> state \<Rightarrow> state" where
  "runFileScanCommand env fileUri time s =
     (if \<not> extensionReady s then
        emit [LogWarn ''Tried to scan before checkov finished installing or updating. Please wait a few seconds and try again.'',
              ShowWarningMessage ''Still installing/updating Checkov, please wait a few seconds and try again.''] s
      else
        let s1 = resetCancelTokenSource s;
            (token, s2) = assureTokenSet env s1;
            prismaUrl = getPrismaUrl (config s2);
            certPath = getPathToCert (config s2);
            useBcIds = getUseBcIds (config s2)
        in case getCheckovVersion (config s2) of
             Inl e \<Rightarrow> emit [CommandRejected e] s2
           | Inr checkovVersion \<Rightarrow>
               (let s3 = removeDiagnosticsCommand s2
                in case activeTextEditor s3 of
                     None \<Rightarrow> s3
                   | Some editor \<Rightarrow>
                       if fileUri = None \<and> \<not> isSupportedFileType env (doc_fileName editor) True then s3
                       else if \<not> falsy token then
                         runScan \<lparr> sa_editor = editor, sa_token = the token, sa_certPath = certPath,
                                   sa_useBcIds = useBcIds,
                                   sa_cancelToken = checkovRunCancelTokenSource s3,
                                   sa_checkovVersion = checkovVersion, sa_prismaUrl = prismaUrl,
                                   sa_fileUri = fileUri \<rparr> time s3
                       else s3))"

text \<open>
  The command that installs or updates Checkov, in the three parts that its two
  \<open>await\<close>s cut it into, and its \<open>catch\<close> block.
\<close>

definition installCatch :: "state \<Rightarrow> state" where
  "installCatch s =
     (let s1 = setErrorStatusBarItem (installedVersion s) s;
          s2 = emit [LogError ''Error occurred while preparing Checkov. Verify your settings, or try to reload vscode.''] s1
      in if \<not> shouldDisableErrorMessage (config s2) then emit [ShowContactUsDetails] s2 else s2)"

definition installOrUpdateCheckovCommand :: "state \<Rightarrow> state" where
  "installOrUpdateCheckovCommand s =
     (let s1 = s\<lparr>extensionReady := False\<rparr>;
          s2 = setSyncingStatusBarItem (installedVersion s1) ''Updating Checkov'' s1
      in case getCheckovVersion (config s2) of
           Inl e \<Rightarrow> installCatch s2
         | Inr checkovVersion \<Rightarrow>
             emit [InstallOrUpdateCheckov checkovVersion]
               (s2\<lparr>pendingInstalls := pendingInstalls s2 @ [checkovVersion]\<rparr>))"

definition dropAt :: "nat \<Rightarrow> 'a list \<Rightarrow> 'a list" where
  "dropAt i xs = take i xs @ drop (Suc i) xs"

definition installSettled :: "nat \<Rightarrow> checkovInstallation option \<Rightarrow> state \<Rightarrow> state" where
  "installSettled i result s =
     (if i < length (pendingInstalls s) then
        let checkovVersion = pendingInstalls s ! i;
            s1 = s\<lparr>pendingInstalls := dropAt i (pendingInstalls s)\<rparr>
        in case result of
             None \<Rightarrow> installCatch s1
           | Some r \<Rightarrow>
               (let inst = r\<lparr>inst_id := nextInstallationId s1\<rparr>;
                    s2 = s1\<lparr>checkovInstallation := Some inst,
                            nextInstallationId := Suc (nextInstallationId s1)\<rparr>;
                    s3 = emit [LogInfo ''Checkov installation: '',
                               RunVersionCommand (checkovPath inst) checkovVersion] s2
                in s3\<lparr>pendingVersionCommands := pendingVersionCommands s3 @ [(inst, checkovVersion)]\<rparr>)
      else s)"

text \<open>
  The statements after the second \<open>await\<close>, up to the request of the first scan:
  \<open>inst\<close> is the installation object that the command created.
\<close>

definition versionCommandFulfilled :: "checkovInstallation \<Rightarrow> string \<Rightarrow> state \<Rightarrow> state" where
  "versionCommandFulfilled inst v s =
     (let s2 = s\<lparr>checkovInstallation :=
                    map_option (\<lambda>cur. if inst_id cur = inst_id inst
                                       then cur\<lparr>inst_version := Some v\<rparr> else cur)
                      (checkovInstallation s)\<rparr>;
          s3 = setReadyStatusBarItem (installedVersion s2) s2
      in s3\<lparr>extensionReady := True\<rparr>)"

definition versionCommandSettled :: "host \<Rightarrow> nat \<Rightarrow> string option \<Rightarrow> nat \<Rightarrow> state \<Rightarrow> state" where
  "versionCommandSettled env i result time s =
     (if i < length (pendingVersionCommands s) then
        let (inst, checkovVersion) = pendingVersionCommands s ! i;
            s1 = s\<lparr>pendingVersionCommands := dropAt i (pendingVersionCommands s)\<rparr>
        in case result of
             None \<Rightarrow> installCatch s1
           | Some v \<Rightarrow>
               (let s4 = versionCommandFulfilled inst v s1
                in case activeTextEditor s4 of
                     None \<Rightarrow> s4
                   | Some editor \<Rightarrow>
                       if isSupportedFileType env (doc_fileName editor) False
                       then runFileScanCommand env None time s4 else s4)
      else s)"

section \<open>extension.ts: the event handlers\<close>

record changeEvent =
  ce_document :: document
  ce_getText :: string
  ce_contentChanges :: "string list"

definition onDidChangeTextDocument :: "host \<Rightarrow> changeEvent \<Rightarrow> state \<Rightarrow> state" where
  "onDidChangeTextDocument env changeEvent s =
     (if \<not> extensionReady s then s
      else if (case activeTextEditor s of
                 None \<Rightarrow> False
               | Some editor \<Rightarrow> doc_uri (ce_document changeEvent) \<noteq> doc_uri editor)
              \<or> \<not> isSupportedFileType env (doc_fileName (ce_document changeEvent)) False
      then s
      else
        let s1 = removeDiagnosticsCommand s
        in if \<not> list_ex (\<lambda>change. CHR 0x0A \<in> set change) (ce_contentChanges changeEvent) then s1
           else emit [WriteFile (tempFileUri env) (ce_getText changeEvent)]
                  (s1\<lparr>pendingWrites := pendingWrites s1 @ [ce_getText changeEvent]\<rparr>))"

text \<open>
  The two callbacks of the promise of \<open>writeFile\<close>: \<open>tempFileSaved\<close> runs when the text
  has been written, \<open>tempFileNotSaved\<close> when the write failed.
\<close>

definition tempFileSaved :: "host \<Rightarrow> string \<Rightarrow> nat \<Rightarrow> state \<Rightarrow> state" where
  "tempFileSaved env txt time s =
     runFileScanCommand env (Some (tempFileUri env)) time
       (emit [LogDebug ''Saved temporary file, now scanning''] (s\<lparr>tempFile := Some txt\<rparr>))"

definition tempFileNotSaved :: "state \<Rightarrow> state" where
  "tempFileNotSaved s = emit [LogError ''Error occurred trying to save temp file''] s"

definition writeFileSettled :: "host \<Rightarrow> nat \<Rightarrow> bool \<Rightarrow> nat \<Rightarrow> state \<Rightarrow> state" where
  "writeFileSettled env i written time s =
     (if i < length (pendingWrites s) then
        let txt = pendingWrites s ! i;
            s1 = s\<lparr>pendingWrites := dropAt i (pendingWrites s)\<rparr>
        in if written then tempFileSaved env txt time s1 else tempFileNotSaved s1
      else s)"

definition onDidSaveTextDocument :: "host \<Rightarrow> document \<Rightarrow> nat \<Rightarrow> state \<Rightarrow> state" where
  "onDidSaveTextDocument env saveEvent time s =
     (if \<not> extensionReady s then s
      else if (case activeTextEditor s of
                 None \<Rightarrow> False
               | Some editor \<Rightarrow> doc_uri saveEvent \<noteq> doc_uri editor)
              \<or> \<not> isSupportedFileType env (doc_fileName saveEvent) False
      then setReadyStatusBarItem (installedVersion s) s
      else runFileScanCommand env None time s)"

definition onDidChangeActiveTextEditor :: "host \<Rightarrow> document option \<Rightarrow> nat \<Rightarrow> state \<Rightarrow> state" where
  "onDidChangeActiveTextEditor env changeViewEvent time s =
     (if \<not> extensionReady s then s
      else if (case changeViewEvent of
                 None \<Rightarrow> False
               | Some editor \<Rightarrow> \<not> isSupportedFileType env (doc_fileName editor) False)
      then (let s1 = resetCancelTokenSource s in setReadyStatusBarItem (installedVersion s1) s1)
      else runFileScanCommand env None time s)"

definition scanSettled :: "nat \<Rightarrow> finding list option \<Rightarrow> state \<Rightarrow> state" where
  "scanSettled i produced s =
     (if i < length (inFlight s)
      then runScan_resume (inFlight s ! i) produced (s\<lparr>inFlight := dropAt i (inFlight s)\<rparr>)
      else s)"

section \<open>The extension as a machine\<close>

text \<open>
  What can happen to the extension after \<open>activate\<close>: the user runs a command, the editor
  reports an event (a change of the active editor has changed
  \<open>vscode.window.activeTextEditor\<close> first), a promise that a handler is waiting for
  settles, or the settings change.
\<close>

datatype event =
    InstallOrUpdateCommand
  | RunFileScanCommand "string option"
  | RemoveDiagnosticsCommand
  | DidChangeTextDocument changeEvent
  | DidSaveTextDocument document
  | DidChangeActiveTextEditor "document option"
  | WriteFileSettled nat bool
  | InstallSettled nat "checkovInstallation option"
  | VersionCommandSettled nat "string option"
  | CheckovScanSettled nat "finding list option"
  | ConfigurationChanged configuration

definition step :: "host \<Rightarrow> event \<Rightarrow> nat \<Rightarrow> state \<Rightarrow> state" where
  "step env e time s =
     (case e of
        InstallOrUpdateCommand \<Rightarrow> installOrUpdateCheckovCommand s
      | RunFileScanCommand fileUri \<Rightarrow> runFileScanCommand env fileUri time s
      | RemoveDiagnosticsCommand \<Rightarrow> removeDiagnosticsCommand s
      | DidChangeTextDocument changeEvent \<Rightarrow> onDidChangeTextDocument env changeEvent s
      | DidSaveTextDocument saveEvent \<Rightarrow> onDidSaveTextDocument env saveEvent time s
      | DidChangeActiveTextEditor changeViewEvent \<Rightarrow>
          onDidChangeActiveTextEditor env changeViewEvent time
            (s\<lparr>activeTextEditor := changeViewEvent\<rparr>)
      | WriteFileSettled i written \<Rightarrow> writeFileSettled env i written time s
      | InstallSettled i result \<Rightarrow> installSettled i result s
      | VersionCommandSettled i result \<Rightarrow> versionCommandSettled env i result time s
      | CheckovScanSettled i produced \<Rightarrow> scanSettled i produced s
      | ConfigurationChanged cfg \<Rightarrow> s\<lparr>config := cfg\<rparr>)"

text \<open>
  Time is counted in milliseconds. \<open>advanceTo env time s\<close> lets the time pass until
  \<open>time\<close>: the timer of \<open>debounce\<close> runs its callback at the time it is due, as often
  as it is due by then.
\<close>

function advanceTo :: "host \<Rightarrow> nat \<Rightarrow> state \<Rightarrow> state" where
  "advanceTo env time s =
     (case timerId (runScanDebounced s) of
        None \<Rightarrow> s
      | Some due \<Rightarrow> if due \<le> time then advanceTo env time (timerExpired env due s) else s)"
  by pat_completeness auto
termination
proof (relation "measure (\<lambda>(env, time, s).
         case timerId (runScanDebounced s) of None \<Rightarrow> 0 | Some due \<Rightarrow> Suc time - due)")
  show "wf (measure (\<lambda>(env, time, s).
         case timerId (runScanDebounced s) of None \<Rightarrow> 0 | Some due \<Rightarrow> Suc time - due))"
    by simp
next
  fix env :: host and time :: nat and s :: state and due :: nat
  assume due: "timerId (runScanDebounced s) = Some due" and le: "due \<le> time"
  have func: "runScanDebounced (runScan_func env a s') = runScanDebounced s'" for a s'
    by (simp add: runScan_func_def emit_def setSyncingStatusBarItem_def setStatusBarItem_def
        Let_def split: option.splits)
  have "(case timerId (runScanDebounced (timerExpired env due s)) of
           None \<Rightarrow> 0 | Some d \<Rightarrow> Suc time - d) < Suc time - due"
  proof (cases "shouldInvoke (runScanDebounced s) due")
    case True
    then have "timerId (runScanDebounced (timerExpired env due s)) = None"
      by (simp add: timerExpired_def trailingEdge_def invokeFunc_def func Let_def
          split: option.splits)
    with le show ?thesis by simp
  next
    case False
    then obtain lc where lc: "lastCallTime (runScanDebounced s) = Some lc"
      and lt: "due < lc + wait" and ge: "lc \<le> due"
      by (auto simp: shouldInvoke_def split: option.splits)
    from False lc have "timerId (runScanDebounced (timerExpired env due s))
        = Some (due + (wait - (due - lc)))"
      by (simp add: timerExpired_def remainingWait_def)
    with lt ge le show ?thesis by simp
  qed
  with due show "((env, time, timerExpired env due s), (env, time, s))
      \<in> measure (\<lambda>(env, time, s).
           case timerId (runScanDebounced s) of None \<Rightarrow> 0 | Some due \<Rightarrow> Suc time - due)"
    by simp
qed

declare advanceTo.simps [simp del]

text \<open>
  A run of the extension: the events with their times, each handled after the time has
  passed until then.
\<close>

fun run :: "host \<Rightarrow> (nat \<times> event) list \<Rightarrow> state \<Rightarrow> state" where
  "run env [] s = s"
| "run env ((time, e) # es) s = run env es (step env e time (advanceTo env time s))"

text \<open>
  \<open>activate\<close>: the variables get their first values and the command that installs Checkov
  is executed.
\<close>

definition activate :: "configuration \<Rightarrow> document option \<Rightarrow> state" where
  "activate cfg editor =
     installOrUpdateCheckovCommand
       \<lparr> extensionReady = False, checkovRunCancelTokenSource = 0, checkovInstallation = None,
         nextInstallationId = 0, diagnostics = (\<lambda>u. []), workspaceState = [],
         statusBar = Initialized,
         runScanDebounced = \<lparr> lastArgs = None, lastCallTime = None, lastInvokeTime = 0,
                              timerId = None \<rparr>,
         inFlight = [], pendingWrites = [], pendingInstalls = [], pendingVersionCommands = [],
         tempFile = None, activeTextEditor = editor, config = cfg,
         effects = [LogInfo ''Starting Checkov Extension.'', SetStatusBar Initialized] \<rparr>"

text \<open>
  The calls of the scanner among the effects, and a sequence of scan requests that edits
  triggered: each is the callback of a write of the temporary file, with its time and
  the text written.
\<close>

fun checkovCalls :: "effect list \<Rightarrow> checkovCall list" where
  "checkovCalls [] = []"
| "checkovCalls (RunCheckovScan c # es) = c # checkovCalls es"
| "checkovCalls (e # es) = checkovCalls es"

fun editScanRequests :: "host \<Rightarrow> (nat \<times> string) list \<Rightarrow> state \<Rightarrow> state" where
  "editScanRequests env [] s = s"
| "editScanRequests env ((time, txt) # rs) s =
     editScanRequests env rs (tempFileSaved env txt time (advanceTo env time s))"

fun rapid :: "nat \<Rightarrow> (nat \<times> string) list \<Rightarrow> bool" where
  "rapid t0 [] = True"
| "rapid t0 ((time, txt) # rs) = (t0 \<le> time \<and> time < t0 + wait \<and> rapid time rs)"

section \<open>A host, a configuration and a document to run the extension on\<close>

definition host0 :: host where
  "host0 = \<lparr> isSupportedFileType = (\<lambda>name flag. name = ''main.tf''),
             getTokenType = (\<lambda>t. if t = ''key::secret'' then ''prisma'' else ''bc-token''),
             getConfigFilePath = None, globalStoragePath = ''/storage'',
             extensionVersion = ''1.0.0'' \<rparr>"

definition config0 :: configuration where
  "config0 = \<lparr> cfg_token = Some ''abc'', cfg_prismaURL = None, cfg_certificate = None,
               cfg_useBridgecrewIDs = None, cfg_checkovVersion = None,
               cfg_disableErrorMessage = None \<rparr>"

definition doc0 :: document where
  "doc0 = \<lparr> doc_uri = ''file:///main.tf'', doc_fileName = ''main.tf'', doc_lineCount = 10 \<rparr>"

definition installation0 :: checkovInstallation where
  "installation0 = \<lparr> inst_id = 0, checkovInstallationMethod = ''pip3'',
                     checkovPath = ''checkov'', inst_version = None \<rparr>"

text \<open>
  The extension while Checkov is being installed, when it has become ready with the
  document open (the installation command has requested a first scan at time 10), and
  when that scan has been started, at time 310.
\<close>

definition installing0 :: state where
  "installing0 = activate config0 (Some doc0)"

definition ready0 :: state where
  "ready0 = run host0 [(0, InstallSettled 0 (Some installation0)),
                        (10, VersionCommandSettled 0 (Some ''3.0.0''))] installing0"

definition scanning0 :: state where
  "scanning0 = advanceTo host0 310 ready0"

text \<open>
  The first scan is in flight and the document is saved at time 400, which requests a
  second scan.
\<close>

definition superseded0 :: state where
  "superseded0 = run host0 [(400, DidSaveTextDocument doc0)] ready0"

definition change0 :: changeEvent where
  "change0 = \<lparr> ce_document = doc0, ce_getText = ''resource x'', ce_contentChanges = [''x''] \<rparr>"

text \<open>The arguments of the scans that these runs request, with the token \<open>k\<close>.\<close>

definition args0 :: "nat \<Rightarrow> scanArgs" where
  "args0 k = \<lparr> sa_editor = doc0, sa_token = ''abc'', sa_certPath = None,
               sa_useBcIds = Some False, sa_cancelToken = k, sa_checkovVersion = ''latest'',
               sa_prismaUrl = None, sa_fileUri = None \<rparr>"

text \<open>Two findings, the second before the first in the order of the Result Mapper.\<close>

definition finding1 :: finding where
  "finding1 = \<lparr> ruleId = ''CKV_AWS_20'', filePath = ''main.tf'', startLine = 500, endLine = 510,
                severity = ''HIGH'', guidelineUrl = None, suggestedFix = None \<rparr>"

definition finding2 :: finding where
  "finding2 = \<lparr> ruleId = ''CKV_AWS_18'', filePath = ''main.tf'', startLine = 3, endLine = 4,
                severity = ''LOW'', guidelineUrl = None, suggestedFix = None \<rparr>"

text \<open>
  The call of the scanner that these runs make for the document with the token \<open>k\<close>.
\<close>

definition call0 :: "nat \<Rightarrow> checkovCall" where
  "call0 k = \<lparr> run_installation = installation0\<lparr>inst_version := Some ''3.0.0''\<rparr>,
               run_extensionVersion = ''1.0.0'', run_filePath = ''main.tf'', run_token = ''abc'',
               run_certPath = None, run_useBcIds = Some False, run_cancelToken = k,
               run_configPath = None, run_checkovVersion = ''latest'', run_prismaUrl = None,
               run_scannedText = None \<rparr>"

text \<open>
  The first scan has completed without failed checks at time 320. Then the settings get
  a Prisma token and no Prisma URL, and the document is saved at time 500.
\<close>

definition idle0 :: state where
  "idle0 = run host0 [(320, CheckovScanSettled 0 (Some []))] ready0"

definition prismaConfig0 :: configuration where
  "prismaConfig0 = config0\<lparr>cfg_token := Some ''key::secret''\<rparr>"

definition prisma0 :: state where
  "prisma0 = run host0 [(400, ConfigurationChanged prismaConfig0),
                         (500, DidSaveTextDocument doc0)] idle0"

section \<open>Notions for the claims about debouncing\<close>

text \<open>
  \<open>scheduled t a s\<close>: the last call of the debounced \<open>runScan\<close> was at time \<open>t\<close> with
  the arguments \<open>a\<close>, and its timer is pending and due after \<open>t\<close>, at \<open>t + wait\<close> at the
  latest. \<open>timerInTime t s\<close>: at time \<open>t\<close> no timer is pending, or the pending timer is
  due after \<open>t\<close> and at \<open>t + wait\<close> at the latest, as it is when the time has passed
  until \<open>t\<close> in a run.
\<close>

definition scheduled :: "nat \<Rightarrow> scanArgs \<Rightarrow> state \<Rightarrow> bool" where
  "scheduled t a s =
     (lastArgs (runScanDebounced s) = Some a \<and> lastCallTime (runScanDebounced s) = Some t
      \<and> (case timerId (runScanDebounced s) of
            None \<Rightarrow> False
          | Some due \<Rightarrow> t < due \<and> due \<le> t + wait))"

definition timerInTime :: "nat \<Rightarrow> state \<Rightarrow> bool" where
  "timerInTime t s =
     (case timerId (runScanDebounced s) of
        None \<Rightarrow> True
      | Some due \<Rightarrow> t < due \<and> due \<le> t + wait)"

text \<open>The arguments that the scan command passes to \<open>runScan\<close> in the state \<open>s\<close>.\<close>

definition scanArgsOf :: "string option \<Rightarrow> document \<Rightarrow> string \<Rightarrow> state \<Rightarrow> scanArgs" where
  "scanArgsOf fileUri editor checkovVersion s =
     \<lparr> sa_editor = editor, sa_token = the (cfg_token (config s)),
       sa_certPath = getPathToCert (config s), sa_useBcIds = getUseBcIds (config s),
       sa_cancelToken = Suc (checkovRunCancelTokenSource s),
       sa_checkovVersion = checkovVersion, sa_prismaUrl = getPrismaUrl (config s),
       sa_fileUri = fileUri \<rparr>"

section \<open>Notions for the claim about superseded scans\<close>


section \<open>Evaluating the model\<close>

lemmas ui_defs = emit_def setStatusBarItem_def setReadyStatusBarItem_def setErrorStatusBarItem_def
  setPassedStatusBarItem_def setSyncingStatusBarItem_def setMissingConfigurationStatusBarItem_def
  installedVersion_def

lemmas config_defs = falsy_def getPrismaUrl_def getPathToCert_def getUseBcIds_def
  shouldDisableErrorMessage_def

lemmas command_defs = runFileScanCommand_def resetCancelTokenSource_def assureTokenSet_def
  removeDiagnosticsCommand_def applyDiagnostics_def saveCheckovResult_def

lemmas debounce_defs = runScan_def shouldInvoke_def remainingWait_def timerExpired_def
  trailingEdge_def invokeFunc_def wait_def checkovCallOf_def

lemmas example_defs = host0_def config0_def doc0_def installation0_def

lemma getCheckovVersion_default:
  "cfg_checkovVersion cfg = None \<Longrightarrow> getCheckovVersion cfg = Inr ''latest''"
  by (simp add: getCheckovVersion_def normalizedVersion_def trim_def toLowerCase_def
      toLowerChar_def isWhiteSpace_def)

lemma checkovCalls_append [simp]:
  "checkovCalls (xs @ ys) = checkovCalls xs @ checkovCalls ys"
  by (induction xs rule: checkovCalls.induct) simp_all

lemma resultMapper_Nil [simp]: "resultMapper doc [] = []"
  by (simp add: resultMapper_def)

lemma installing0_eq:
  "installing0 =
     \<lparr> extensionReady = False, checkovRunCancelTokenSource = 0, checkovInstallation = None,
       nextInstallationId = 0, diagnostics = (\<lambda>u. []), workspaceState = [],
       statusBar = Syncing None ''Updating Checkov'',
       runScanDebounced = \<lparr> lastArgs = None, lastCallTime = None, lastInvokeTime = 0,
                            timerId = None \<rparr>,
       inFlight = [], pendingWrites = [], pendingInstalls = [''latest''],
       pendingVersionCommands = [], tempFile = None, activeTextEditor = Some doc0,
       config = config0,
       effects = [LogInfo ''Starting Checkov Extension.'', SetStatusBar Initialized,
                  SetStatusBar (Syncing None ''Updating Checkov''),
                  InstallOrUpdateCheckov ''latest''] \<rparr>"
  by (simp add: installing0_def activate_def installOrUpdateCheckovCommand_def ui_defs
      getCheckovVersion_default config0_def)

lemma ready0_eq:
  "ready0 =
     \<lparr> extensionReady = True, checkovRunCancelTokenSource = 1,
       checkovInstallation = Some (installation0\<lparr>inst_version := Some ''3.0.0''\<rparr>),
       nextInstallationId = 1, diagnostics = (\<lambda>u. []), workspaceState = [],
       statusBar = Ready (Some ''3.0.0''),
       runScanDebounced = \<lparr> lastArgs = Some (args0 1), lastCallTime = Some 10,
                            lastInvokeTime = 10, timerId = Some 310 \<rparr>,
       inFlight = [], pendingWrites = [], pendingInstalls = [],
       pendingVersionCommands = [], tempFile = None, activeTextEditor = Some doc0,
       config = config0,
       effects = [LogInfo ''Starting Checkov Extension.'', SetStatusBar Initialized,
                  SetStatusBar (Syncing None ''Updating Checkov''),
                  InstallOrUpdateCheckov ''latest'',
                  LogInfo ''Checkov installation: '',
                  RunVersionCommand ''checkov'' ''latest'',
                  SetStatusBar (Ready (Some ''3.0.0'')),
                  SetStatusBar (Ready (Some ''3.0.0'')),
                  SetDiagnostics ''file:///main.tf'' []] \<rparr>"
  by (simp add: ready0_def installing0_eq ui_defs config_defs command_defs debounce_defs
      getCheckovVersion_default advanceTo.simps step_def installSettled_def
      versionCommandSettled_def versionCommandFulfilled_def dropAt_def example_defs args0_def
      Let_def fun_upd_idem)

section \<open>getCheckovVersion\<close>

lemma isWhiteSpace_code: "isWhiteSpace c \<longleftrightarrow> (of_char c :: nat) \<in> {9, 10, 11, 12, 13, 32, 160}"
proof -
  have e: "c = d \<longleftrightarrow> (of_char c :: nat) = of_char d" for d
    by (simp add: of_char_eq_iff)
  show ?thesis
    unfolding isWhiteSpace_def by (simp add: e)
qed

lemma of_char_toLowerChar:
  "(of_char (toLowerChar c) :: nat) =
     (let n = of_char c in
      if (65 \<le> n \<and> n \<le> 90) \<or> (192 \<le> n \<and> n \<le> 222 \<and> n \<noteq> 215) then n + 32 else n)"
  by (auto simp: toLowerChar_def Let_def)

lemma isWhiteSpace_toLowerChar [simp]: "isWhiteSpace (toLowerChar c) = isWhiteSpace c"
  unfolding isWhiteSpace_code of_char_toLowerChar by (auto simp: Let_def)

lemma toLowerChar_idem [simp]: "toLowerChar (toLowerChar c) = toLowerChar c"
proof -
  have "(of_char (toLowerChar (toLowerChar c)) :: nat) = of_char (toLowerChar c)"
    unfolding of_char_toLowerChar [of "toLowerChar c"] by (auto simp: of_char_toLowerChar Let_def)
  then show ?thesis by (simp add: of_char_eq_iff)
qed

lemma toLowerCase_idem [simp]: "toLowerCase (toLowerCase s) = toLowerCase s"
  by (simp add: toLowerCase_def)

lemma trim_toLowerCase: "trim (toLowerCase s) = toLowerCase (trim s)"
  by (simp add: trim_def toLowerCase_def dropWhile_map rev_map comp_def)

lemma dropWhile_fix: "xs = [] \<or> \<not> P (hd xs) \<Longrightarrow> dropWhile P xs = xs"
  by (cases xs) auto

lemma trim_idem [simp]: "trim (trim s) = trim s"
proof -
  define y where "y = dropWhile isWhiteSpace s"
  define z where "z = dropWhile isWhiteSpace (rev y)"
  have y: "y = rev z @ rev (takeWhile isWhiteSpace (rev y))"
  proof -
    have "rev y = takeWhile isWhiteSpace (rev y) @ z"
      by (simp add: z_def)
    then have "rev (rev y) = rev (takeWhile isWhiteSpace (rev y) @ z)" by simp
    then show ?thesis by simp
  qed
  have hy: "y = [] \<or> \<not> isWhiteSpace (hd y)"
    unfolding y_def by (metis hd_dropWhile)
  have "rev z = [] \<or> \<not> isWhiteSpace (hd (rev z))"
  proof (cases "rev z = []")
    case False
    then have "hd y = hd (rev z)" using y by (metis hd_append2)
    moreover have "y \<noteq> []" using y False by auto
    ultimately show ?thesis using hy by simp
  qed simp
  then have a: "dropWhile isWhiteSpace (rev z) = rev z" by (rule dropWhile_fix)
  have b: "dropWhile isWhiteSpace z = z" by (simp add: z_def)
  have "trim s = rev z" by (simp add: trim_def y_def z_def)
  moreover have "trim (rev z) = rev z" by (simp add: trim_def a b)
  ultimately show ?thesis by simp
qed

lemma normalize_idem: "toLowerCase (trim (toLowerCase (trim s))) = toLowerCase (trim s)"
  by (simp add: trim_toLowerCase)

lemma parseSemver_min: "parseSemver ''2.0.0'' = Some \<lparr> major = 2, minor = 0, patch = 0, prerelease = [], build = [] \<rparr>"
  by (simp add: parseSemver_def matchFULL_def stripV_def trim_def isWhiteSpace_def cutAt_def
      MAX_LENGTH_def isNumericIdentifier_def isDigit_def readNat_def digitVal_def
      MAX_SAFE_INTEGER_def)

lemma normalized_example: "toLowerCase (trim ''  V2.3.4+abc '') = ''v2.3.4+abc''"
  by code_simp

lemma getCheckovVersion_example:
  "getCheckovVersion (config0\<lparr>cfg_checkovVersion := Some ''  V2.3.4+abc ''\<rparr>) = Inr ''2.3.4''"
proof -
  have n: "normalizedVersion (config0\<lparr>cfg_checkovVersion := Some ''  V2.3.4+abc ''\<rparr>) = ''v2.3.4+abc''"
    by (simp add: normalizedVersion_def normalized_example)
  have m: "matchFULL ''v2.3.4+abc'' = Some (''2'', ''3'', ''4'', None, Some ''abc'')"
    "matchFULL ''2.3.4+abc'' = Some (''2'', ''3'', ''4'', None, Some ''abc'')"
    by code_simp+
  have t: "trim ''v2.3.4+abc'' = ''v2.3.4+abc''" "trim ''2.3.4+abc'' = ''2.3.4+abc''"
    by code_simp+
  have f: "showNat 2 = ''2''" "showNat 3 = ''3''" "showNat 4 = ''4''"
    by code_simp+
  have r: "readNat ''2'' = 2" "readNat ''3'' = 3" "readNat ''4'' = 4"
    by code_simp+
  have p: "parseSemver ''v2.3.4+abc''
             = Some \<lparr> major = 2, minor = 3, patch = 4, prerelease = [], build = [''abc''] \<rparr>"
    "parseSemver ''2.3.4+abc''
             = Some \<lparr> major = 2, minor = 3, patch = 4, prerelease = [], build = [''abc''] \<rparr>"
    by (simp_all add: parseSemver_def m t r MAX_LENGTH_def MAX_SAFE_INTEGER_def)
  have c: "semver_clean ''v2.3.4+abc'' = Some ''2.3.4''"
    by (simp add: semver_clean_def t p formatSemver_def f)
  have v: "semver_valid ''v2.3.4+abc'' = Some ''2.3.4''"
    by (simp add: semver_valid_def p formatSemver_def f)
  have g: "semver_satisfies_ge ''v2.3.4+abc'' minCheckovVersion"
    by (simp add: semver_satisfies_ge_def minCheckovVersion_def parseSemver_min p compareMain_def)
  show ?thesis
    unfolding getCheckovVersion_def n by (simp add: c v g)
qed

lemma isDigit_code: "isDigit c \<longleftrightarrow> 48 \<le> (of_char c :: nat) \<and> (of_char c :: nat) \<le> 57"
  by (simp add: isDigit_def less_eq_char_def)

lemma isDigit_digitChar: "n < 10 \<Longrightarrow> isDigit (digitChar n)"
  by (simp add: isDigit_code digitChar_def)

lemma digitVal_digitChar: "n < 10 \<Longrightarrow> digitVal (digitChar n) = n"
  by (simp add: digitVal_def digitChar_def)

lemma digitChar_zero: "n < 10 \<Longrightarrow> digitChar n = CHR ''0'' \<longleftrightarrow> n = 0"
proof -
  assume "n < 10"
  have "digitChar n = CHR ''0'' \<longleftrightarrow> (of_char (digitChar n) :: nat) = of_char CHR ''0''"
    by (simp only: of_char_eq_iff)
  with \<open>n < 10\<close> show ?thesis by (simp add: digitChar_def)
qed

lemma showNat_digits: "list_all isDigit (showNat n) \<and> showNat n \<noteq> []"
proof (induction n rule: showNat.induct)
  case (1 n)
  show ?case
  proof (cases "n < 10")
    case True
    then show ?thesis by (simp add: showNat.simps [of n] isDigit_digitChar)
  next
    case False
    with 1 show ?thesis by (simp add: showNat.simps [of n] isDigit_digitChar)
  qed
qed

lemma showNat_hd: "0 < n \<Longrightarrow> hd (showNat n) \<noteq> CHR ''0''"
proof (induction n rule: showNat.induct)
  case (1 n)
  show ?case
  proof (cases "n < 10")
    case True
    with 1(2) show ?thesis by (simp add: showNat.simps [of n] digitChar_zero)
  next
    case False
    then have "0 < n div 10" by simp
    with 1(1) False have "hd (showNat (n div 10)) \<noteq> CHR ''0''" by simp
    with False showNat_digits [of "n div 10"] show ?thesis
      by (simp add: showNat.simps [of n])
  qed
qed

lemma showNat_zero: "showNat 0 = ''0''"
  by code_simp

lemma isNumericIdentifier_showNat: "isNumericIdentifier (showNat n)"
  using showNat_digits [of n] showNat_hd [of n] showNat_zero
  by (cases "n = 0") (auto simp: isNumericIdentifier_def)

lemma readNat_snoc: "readNat (ds @ [c]) = 10 * readNat ds + digitVal c"
  by (simp add: readNat_def)

lemma readNat_showNat: "readNat (showNat n) = n"
proof (induction n rule: showNat.induct)
  case (1 n)
  show ?case
  proof (cases "n < 10")
    case True
    then show ?thesis by (simp add: showNat.simps [of n] readNat_def digitVal_digitChar)
  next
    case False
    with 1 show ?thesis
      by (simp add: showNat.simps [of n] readNat_snoc digitVal_digitChar)
  qed
qed

lemma length_showNat: "0 < k \<Longrightarrow> n < 10 ^ k \<Longrightarrow> length (showNat n) \<le> k"
proof (induction n arbitrary: k rule: showNat.induct)
  case (1 n)
  show ?case
  proof (cases "n < 10")
    case True
    with 1(2) show ?thesis by (simp add: showNat.simps [of n])
  next
    case False
    with 1(3) have k: "1 < k" by (cases k; cases "k - 1") auto
    then obtain j where j: "k = Suc j" "0 < j" by (cases k) auto
    with 1(3) have "n div 10 < 10 ^ j" by (simp add: less_mult_imp_div_less mult.commute) 
    with 1(1) [OF False j(2)] have "length (showNat (n div 10)) \<le> j" by simp
    with False j show ?thesis by (simp add: showNat.simps [of n])
  qed
qed

lemma splitOn_nonempty [simp]: "splitOn d s \<noteq> []"
  by (induction s) (auto split: list.splits)

lemma splitOn_no_sep: "d \<notin> set w \<Longrightarrow> splitOn d w = [w]"
  by (induction w) auto

lemma splitOn_append: "d \<notin> set w \<Longrightarrow> splitOn d (w @ d # rest) = w # splitOn d rest"
  by (induction w) auto

lemma splitOn_hd: "splitOn d s = w # ws \<Longrightarrow> w = takeWhile (\<lambda>c. c \<noteq> d) s"
  by (induction s arbitrary: w ws) (auto split: if_splits list.splits)

lemma cutAt_no_sep: "d \<notin> set s \<Longrightarrow> cutAt d s = (s, None)"
proof -
  assume "d \<notin> set s"
  then have "takeWhile (\<lambda>c. c \<noteq> d) s = s" "dropWhile (\<lambda>c. c \<noteq> d) s = []"
    by (induction s) auto
  then show ?thesis by (simp add: cutAt_def)
qed

lemma digits_no_punct:
  assumes "list_all isDigit w"
  shows "CHR ''.'' \<notin> set w" "CHR ''+'' \<notin> set w" "CHR ''-'' \<notin> set w" "CHR ''v'' \<notin> set w"
    "CHR ''='' \<notin> set w" "\<forall>c \<in> set w. \<not> isWhiteSpace c"
  using assms by (auto simp: list_all_iff isDigit_code isWhiteSpace_code)

lemma trim_fixed:
  assumes "s \<noteq> []" "\<not> isWhiteSpace (hd s)" "\<not> isWhiteSpace (last s)"
  shows "trim s = s"
proof -
  have a: "dropWhile isWhiteSpace s = s"
    using assms by (cases s) auto
  have "hd (rev s) = last s"
    using assms by (simp add: hd_rev)
  with assms have "dropWhile isWhiteSpace (rev s) = rev s"
    by (intro dropWhile_fix) simp
  with a show ?thesis by (simp add: trim_def)
qed

lemma matchFULL_main:
  assumes "isNumericIdentifier a" "isNumericIdentifier b" "isNumericIdentifier c"
  shows "matchFULL (a @ ''.'' @ b @ ''.'' @ c) = Some (a, b, c, None, None)"
proof -
  let ?s = "a @ ''.'' @ b @ ''.'' @ c"
  have da: "list_all isDigit a" and db: "list_all isDigit b" and dc: "list_all isDigit c"
    and na: "a \<noteq> []"
    using assms by (simp_all add: isNumericIdentifier_def)
  have hd: "hd ?s = hd a" using na by simp
  have "hd a \<in> set a" using na by simp
  then have "hd a \<noteq> CHR ''v''" using digits_no_punct(4) [OF da] by metis
  with na hd have s1: "stripV ?s = ?s"
    by (cases a) (auto simp: stripV_def)
  have plus: "CHR ''+'' \<notin> set ?s"
    using digits_no_punct(2) [OF da] digits_no_punct(2) [OF db] digits_no_punct(2) [OF dc]
    by simp
  have minus: "CHR ''-'' \<notin> set ?s"
    using digits_no_punct(3) [OF da] digits_no_punct(3) [OF db] digits_no_punct(3) [OF dc]
    by simp
  have split: "splitOn CHR ''.'' ?s = [a, b, c]"
    using digits_no_punct(1) [OF da] digits_no_punct(1) [OF db] digits_no_punct(1) [OF dc]
    by (simp add: splitOn_append splitOn_no_sep)
  show ?thesis
    unfolding matchFULL_def s1
    by (simp only: cutAt_no_sep [OF plus] cutAt_no_sep [OF minus] Let_def split_conv split)
      (simp add: assms)
qed

lemma trim_main:
  assumes "isNumericIdentifier a" "isNumericIdentifier c"
  shows "trim (a @ ''.'' @ b @ ''.'' @ c) = a @ ''.'' @ b @ ''.'' @ c"
proof (rule trim_fixed)
  have da: "list_all isDigit a" and dc: "list_all isDigit c" and na: "a \<noteq> []" and nc: "c \<noteq> []"
    using assms by (simp_all add: isNumericIdentifier_def)
  show "a @ ''.'' @ b @ ''.'' @ c \<noteq> []" using na by simp
  have "hd a \<in> set a" using na by simp
  with digits_no_punct(6) [OF da] na show "\<not> isWhiteSpace (hd (a @ ''.'' @ b @ ''.'' @ c))"
    by simp
  have "last c \<in> set c" using nc by simp
  with digits_no_punct(6) [OF dc] nc show "\<not> isWhiteSpace (last (a @ ''.'' @ b @ ''.'' @ c))"
    by simp
qed

lemma parseSemver_format:
  assumes "major v \<le> MAX_SAFE_INTEGER" "minor v \<le> MAX_SAFE_INTEGER" "patch v \<le> MAX_SAFE_INTEGER"
    and "prerelease v = []"
  shows "parseSemver (formatSemver v)
         = Some \<lparr> major = major v, minor = minor v, patch = patch v, prerelease = [], build = [] \<rparr>"
proof -
  have len: "length (showNat n) \<le> 16" if "n \<le> MAX_SAFE_INTEGER" for n
    using that by (intro length_showNat) (simp_all add: MAX_SAFE_INTEGER_def)
  have f: "formatSemver v = showNat (major v) @ ''.'' @ showNat (minor v) @ ''.'' @ showNat (patch v)"
    using assms(4) by (simp add: formatSemver_def)
  have l: "\<not> length (formatSemver v) > MAX_LENGTH"
    using len [OF assms(1)] len [OF assms(2)] len [OF assms(3)]
    by (simp add: f MAX_LENGTH_def)
  show ?thesis
    unfolding parseSemver_def using l assms(1-3)
    by (simp add: f trim_main matchFULL_main isNumericIdentifier_showNat readNat_showNat
        del: append_assoc append.simps)
qed

lemma hd_takeWhile_nonempty:
  "takeWhile P xs \<noteq> [] \<Longrightarrow> xs \<noteq> [] \<and> hd (takeWhile P xs) = hd xs"
  by (cases xs) (auto split: if_splits)

lemma trim_ends:
  assumes "trim x \<noteq> []"
  shows "\<not> isWhiteSpace (hd (trim x))" "\<not> isWhiteSpace (last (trim x))"
proof -
  have idem: "trim (trim x) = trim x" by simp
  let ?s = "trim x"
  have l1: "length (dropWhile isWhiteSpace (rev (dropWhile isWhiteSpace ?s))) = length ?s"
    using idem by (metis length_rev trim_def)
  have l2: "length (dropWhile isWhiteSpace (rev (dropWhile isWhiteSpace ?s)))
        \<le> length (dropWhile isWhiteSpace ?s)"
    by (metis length_dropWhile_le length_rev)
  have l3: "length (dropWhile isWhiteSpace ?s) \<le> length ?s"
    by (rule length_dropWhile_le)
  from l1 l2 l3 have e: "length (dropWhile isWhiteSpace ?s) = length ?s" by simp
  have full: "dropWhile P xs = xs" if "length (dropWhile P xs) = length xs" for P and xs :: string
    using that by (metis append_eq_conv_conj append_self_conv2 length_0_conv length_append
        add_cancel_left_left takeWhile_dropWhile_id)
  have a: "dropWhile isWhiteSpace ?s = ?s" using e by (rule full)
  with assms show "\<not> isWhiteSpace (hd (trim x))"
    by (metis hd_dropWhile)
  from l1 a have "length (dropWhile isWhiteSpace (rev ?s)) = length (rev ?s)" by simp
  then have b: "dropWhile isWhiteSpace (rev ?s) = rev ?s" by (rule full)
  have "rev ?s \<noteq> []" using assms by simp
  with b have "\<not> isWhiteSpace (hd (rev ?s))" by (metis hd_dropWhile)
  with assms show "\<not> isWhiteSpace (last (trim x))" by (simp add: hd_rev)
qed

lemma matchFULL_stripV: "matchFULL s = matchFULL (stripV s)" if "hd (stripV s) \<noteq> CHR ''v''"
proof -
  have "stripV (stripV s) = stripV s"
    using that by (cases "stripV s") (auto simp: stripV_def)
  then show ?thesis
    by (simp add: matchFULL_def)
qed

lemma matchFULL_digit:
  assumes "matchFULL s = Some r"
  shows "stripV s \<noteq> [] \<and> isDigit (hd (stripV s))"
proof -
  define mp where "mp = takeWhile (\<lambda>c. c \<noteq> CHR ''+'') (stripV s)"
  define mainPart where "mainPart = takeWhile (\<lambda>c. c \<noteq> CHR ''-'') mp"
  from assms obtain a b c where sp: "splitOn CHR ''.'' mainPart = [a, b, c]"
    and num: "isNumericIdentifier a"
    by (auto simp: matchFULL_def cutAt_def Let_def mp_def mainPart_def
        split: list.splits if_splits)
  from sp have a: "a = takeWhile (\<lambda>c. c \<noteq> CHR ''.'') mainPart" by (rule splitOn_hd)
  from num have ne: "a \<noteq> []" and dig: "isDigit (hd a)"
    by (auto simp: isNumericIdentifier_def list_all_iff)
  from ne a have 1: "mainPart \<noteq> []" "hd a = hd mainPart"
    using hd_takeWhile_nonempty [of "\<lambda>c. c \<noteq> CHR ''.''" mainPart] by auto
  then have 2: "mp \<noteq> []" "hd mainPart = hd mp"
    using hd_takeWhile_nonempty [of "\<lambda>c. c \<noteq> CHR ''-''" mp] by (auto simp: mainPart_def)
  then have 3: "stripV s \<noteq> []" "hd mp = hd (stripV s)"
    using hd_takeWhile_nonempty [of "\<lambda>c. c \<noteq> CHR ''+''" "stripV s"] by (auto simp: mp_def)
  with 1 2 dig show ?thesis by simp
qed

lemma parseSemver_clean:
  assumes "parseSemver x = Some v"
  shows "parseSemver (dropWhile (\<lambda>c. c = CHR ''='' \<or> c = CHR ''v'') (trim x)) = Some v"
proof -
  let ?p = "\<lambda>c. c = CHR ''='' \<or> c = CHR ''v''"
  let ?s = "trim x"
  from assms have len: "length x \<le> MAX_LENGTH"
    by (auto simp: parseSemver_def split: if_splits)
  from assms obtain r where m: "matchFULL ?s = Some r"
    by (auto simp: parseSemver_def split: if_splits option.splits)
  from matchFULL_digit [OF m] have ne: "stripV ?s \<noteq> []" and dig: "isDigit (hd (stripV ?s))"
    by simp_all
  have notp: "\<not> ?p (hd (stripV ?s))" "hd (stripV ?s) \<noteq> CHR ''v''"
    "\<not> isWhiteSpace (hd (stripV ?s))"
    using dig by (auto simp: isDigit_code isWhiteSpace_code)
  have sne: "?s \<noteq> []" using ne by (auto simp: stripV_def)
  have drop: "dropWhile ?p ?s = stripV ?s"
  proof (cases ?s)
    case Nil
    with sne show ?thesis by simp
  next
    case (Cons c cs)
    show ?thesis
    proof (cases "c = CHR ''v''")
      case True
      with Cons have sv: "stripV ?s = cs" by (simp add: stripV_def)
      with ne notp(1) have "dropWhile ?p cs = cs" by (intro dropWhile_fix) simp
      with Cons True sv show ?thesis by simp
    next
      case False
      with Cons have sv: "stripV ?s = ?s" by (simp add: stripV_def)
      with notp(1) have "dropWhile ?p ?s = ?s" by (intro dropWhile_fix) simp
      with sv show ?thesis by simp
    qed
  qed
  have last: "last (stripV ?s) = last ?s"
    using ne by (cases ?s) (auto simp: stripV_def split: if_splits)
  have tr: "trim (stripV ?s) = stripV ?s"
    using ne notp(3) trim_ends(2) [OF sne] last by (intro trim_fixed) simp_all
  have le: "length (stripV ?s) \<le> length x"
  proof -
    have "length (stripV ?s) \<le> length ?s"
      by (cases ?s) (auto simp: stripV_def)
    moreover have "length ?s \<le> length x"
      unfolding trim_def by (metis le_trans length_dropWhile_le length_rev)
    ultimately show ?thesis by simp
  qed
  have "parseSemver (stripV ?s) = parseSemver x"
    using len le assms
    by (simp add: parseSemver_def tr matchFULL_stripV [OF notp(2), symmetric])
  with drop assms show ?thesis by simp
qed

lemma version_example_valid:
  "semver_valid ''v2.3.4+abc'' = Some ''2.3.4''"
  "semver_satisfies_ge ''v2.3.4+abc'' minCheckovVersion"
proof -
  have m: "matchFULL ''v2.3.4+abc'' = Some (''2'', ''3'', ''4'', None, Some ''abc'')"
    by code_simp
  have t: "trim ''v2.3.4+abc'' = ''v2.3.4+abc''"
    by code_simp
  have f: "showNat 2 = ''2''" "showNat 3 = ''3''" "showNat 4 = ''4''"
    by code_simp+
  have r: "readNat ''2'' = 2" "readNat ''3'' = 3" "readNat ''4'' = 4"
    by code_simp+
  have p: "parseSemver ''v2.3.4+abc''
             = Some \<lparr> major = 2, minor = 3, patch = 4, prerelease = [], build = [''abc''] \<rparr>"
    by (simp add: parseSemver_def m t r MAX_LENGTH_def MAX_SAFE_INTEGER_def)
  show "semver_valid ''v2.3.4+abc'' = Some ''2.3.4''"
    by (simp add: semver_valid_def p formatSemver_def f)
  show "semver_satisfies_ge ''v2.3.4+abc'' minCheckovVersion"
    by (simp add: semver_satisfies_ge_def minCheckovVersion_def parseSemver_min p compareMain_def)
qed

lemma semver_valid_not_sentinel:
  "semver_valid '''' = None" "semver_valid ''latest'' = None"
proof -
  have m: "matchFULL '''' = None" "matchFULL ''latest'' = None"
    by code_simp+
  have t: "trim '''' = ''''" "trim ''latest'' = ''latest''"
    by code_simp+
  show "semver_valid '''' = None" "semver_valid ''latest'' = None"
    by (simp_all add: semver_valid_def parseSemver_def m t)
qed

lemma semver_clean_of_valid:
  assumes "semver_valid n = Some w"
  shows "semver_clean n = Some w"
proof -
  from assms obtain sv where sv: "parseSemver n = Some sv" and w: "w = formatSemver sv"
    by (auto simp: semver_valid_def)
  from parseSemver_clean [OF sv] w show ?thesis
    by (simp add: semver_clean_def)
qed

lemma getCheckovVersion_accepts:
  assumes "semver_valid (normalizedVersion cfg) = Some w"
    and "semver_satisfies_ge (normalizedVersion cfg) minCheckovVersion"
  shows "getCheckovVersion cfg = Inr w"
proof -
  from assms(1) have "normalizedVersion cfg \<noteq> ''''" "normalizedVersion cfg \<noteq> ''latest''"
    using semver_valid_not_sentinel by auto
  with assms semver_clean_of_valid [OF assms(1)] show ?thesis
    by (simp add: getCheckovVersion_def Let_def)
qed

text \<open>
  C10: \<open>getCheckovVersion\<close> normalizes the configured string before it validates it.
  A setting that is absent, empty or only white space gives \<open>latest\<close>; the result for a
  configured string is the result for its trimmed, lower-cased form; a result that
  is not \<open>latest\<close> is what \<open>semver.clean\<close> makes of that form, not the configured
  string; and a configured string whose trimmed, lower-cased form is a valid version
  that satisfies \<open>>=2.0.0\<close> is accepted: the result is the canonical text of that form,
  which is also what \<open>semver.clean\<close> makes of it.
\<close>

theorem getCheckovVersion_normalizes:
  "getCheckovVersion (cfg\<lparr>cfg_checkovVersion := None\<rparr>) = Inr ''latest''
   \<and> getCheckovVersion (cfg\<lparr>cfg_checkovVersion := Some ''''\<rparr>) = Inr ''latest''
   \<and> (trim raw = [] \<longrightarrow> getCheckovVersion (cfg\<lparr>cfg_checkovVersion := Some raw\<rparr>) = Inr ''latest'')
   \<and> getCheckovVersion (cfg\<lparr>cfg_checkovVersion := Some raw\<rparr>)
       = getCheckovVersion (cfg\<lparr>cfg_checkovVersion := Some (toLowerCase (trim raw))\<rparr>)
   \<and> (getCheckovVersion (cfg\<lparr>cfg_checkovVersion := Some raw\<rparr>) = Inr v \<longrightarrow>
        (if toLowerCase (trim raw) = '''' \<or> toLowerCase (trim raw) = ''latest'' then v = ''latest''
         else semver_clean (toLowerCase (trim raw)) = Some v))
   \<and> (semver_valid (toLowerCase (trim raw)) = Some w
        \<and> semver_satisfies_ge (toLowerCase (trim raw)) minCheckovVersion \<longrightarrow>
        semver_clean (toLowerCase (trim raw)) = Some w
        \<and> getCheckovVersion (cfg\<lparr>cfg_checkovVersion := Some raw\<rparr>) = Inr w)"
proof -
  have a: "getCheckovVersion (cfg\<lparr>cfg_checkovVersion := None\<rparr>) = Inr ''latest''"
    by (simp add: getCheckovVersion_default)
  have b: "trim raw = [] \<Longrightarrow> getCheckovVersion (cfg\<lparr>cfg_checkovVersion := Some raw\<rparr>) = Inr ''latest''"
    by (simp add: getCheckovVersion_def normalizedVersion_def toLowerCase_def)
  have b0: "getCheckovVersion (cfg\<lparr>cfg_checkovVersion := Some ''''\<rparr>) = Inr ''latest''"
    by (simp add: getCheckovVersion_def normalizedVersion_def toLowerCase_def trim_def)
  have c: "normalizedVersion (cfg\<lparr>cfg_checkovVersion := Some (toLowerCase (trim raw))\<rparr>)
        = normalizedVersion (cfg\<lparr>cfg_checkovVersion := Some raw\<rparr>)"
    by (simp add: normalizedVersion_def normalize_idem)
  have d: "getCheckovVersion (cfg\<lparr>cfg_checkovVersion := Some raw\<rparr>)
       = getCheckovVersion (cfg\<lparr>cfg_checkovVersion := Some (toLowerCase (trim raw))\<rparr>)"
    unfolding getCheckovVersion_def c ..
  have e: "getCheckovVersion (cfg\<lparr>cfg_checkovVersion := Some raw\<rparr>) = Inr v \<Longrightarrow>
        (if toLowerCase (trim raw) = '''' \<or> toLowerCase (trim raw) = ''latest'' then v = ''latest''
         else semver_clean (toLowerCase (trim raw)) = Some v)"
    by (auto simp: getCheckovVersion_def normalizedVersion_def Let_def split: if_splits option.splits)
  have n: "normalizedVersion (cfg\<lparr>cfg_checkovVersion := Some raw\<rparr>) = toLowerCase (trim raw)"
    by (simp add: normalizedVersion_def)
  have f: "semver_clean (toLowerCase (trim raw)) = Some w
        \<and> getCheckovVersion (cfg\<lparr>cfg_checkovVersion := Some raw\<rparr>) = Inr w"
    if "semver_valid (toLowerCase (trim raw)) = Some w
        \<and> semver_satisfies_ge (toLowerCase (trim raw)) minCheckovVersion"
    using that semver_clean_of_valid [of "toLowerCase (trim raw)" w]
      getCheckovVersion_accepts [of "cfg\<lparr>cfg_checkovVersion := Some raw\<rparr>" w]
    by (simp add: n)
  from a b0 b d e f show ?thesis by blast
qed

theorem getCheckovVersion_normalizes_witness:
  "getCheckovVersion (config0\<lparr>cfg_checkovVersion := Some ''  V2.3.4+abc ''\<rparr>) = Inr ''2.3.4''
   \<and> getCheckovVersion (config0\<lparr>cfg_checkovVersion := Some ''v2.3.4+abc''\<rparr>) = Inr ''2.3.4''
   \<and> semver_clean ''v2.3.4+abc'' = Some ''2.3.4''
   \<and> getCheckovVersion (config0\<lparr>cfg_checkovVersion := Some ''   ''\<rparr>) = Inr ''latest''"
proof -
  have t: "trim ''   '' = []"
    by code_simp
  note accepted = getCheckovVersion_normalizes
      [of config0 "''  V2.3.4+abc ''" "''2.3.4''" "''2.3.4''", unfolded normalized_example]
  from accepted version_example_valid
  have a: "semver_clean ''v2.3.4+abc'' = Some ''2.3.4''
      \<and> getCheckovVersion (config0\<lparr>cfg_checkovVersion := Some ''  V2.3.4+abc ''\<rparr>) = Inr ''2.3.4''"
    by blast
  from accepted a
  have b: "getCheckovVersion (config0\<lparr>cfg_checkovVersion := Some ''v2.3.4+abc''\<rparr>) = Inr ''2.3.4''"
    by simp
  from getCheckovVersion_normalizes [of config0 "''   ''"] t
  have c: "getCheckovVersion (config0\<lparr>cfg_checkovVersion := Some ''   ''\<rparr>) = Inr ''latest''"
    by blast
  from a b c show ?thesis by simp
qed

lemma parseSemver_bounds:
  assumes "parseSemver x = Some v"
  shows "major v \<le> MAX_SAFE_INTEGER" "minor v \<le> MAX_SAFE_INTEGER" "patch v \<le> MAX_SAFE_INTEGER"
  using assms by (auto simp: parseSemver_def split: if_splits option.splits)

lemma getCheckovVersion_Inr:
  assumes "getCheckovVersion cfg = Inr v" and "v \<noteq> ''latest''"
  shows "semver_valid v = Some v \<and> semver_satisfies_ge v minCheckovVersion"
proof -
  let ?n = "normalizedVersion cfg"
  let ?min = "\<lparr> major = 2, minor = 0, patch = 0, prerelease = [], build = [] \<rparr>"
  from assms have valid: "semver_valid ?n \<noteq> None" and clean: "semver_clean ?n = Some v"
    and sat: "semver_satisfies_ge ?n minCheckovVersion"
    by (auto simp: getCheckovVersion_def Let_def split: if_splits option.splits)
  from valid obtain sv where sv: "parseSemver ?n = Some sv"
    by (auto simp: semver_valid_def)
  from clean parseSemver_clean [OF sv] have v: "v = formatSemver sv"
    by (simp add: semver_clean_def)
  from sat sv have pre: "prerelease sv = []" and cmp: "compareMain sv ?min \<ge> 0"
    by (auto simp: semver_satisfies_ge_def minCheckovVersion_def parseSemver_min)
  let ?sv' = "\<lparr> major = major sv, minor = minor sv, patch = patch sv, prerelease = [], build = [] \<rparr>"
  have p: "parseSemver v = Some ?sv'"
    unfolding v using parseSemver_bounds [OF sv] pre by (rule parseSemver_format)
  have f: "formatSemver ?sv' = v"
    using pre by (simp add: v formatSemver_def)
  have a: "semver_valid v = Some v"
    by (simp add: semver_valid_def p f)
  have "compareMain ?sv' ?min = compareMain sv ?min"
    by (simp add: compareMain_def)
  with cmp have "compareMain ?sv' ?min \<ge> 0"
    by simp
  then have "semver_satisfies_ge v minCheckovVersion"
    by (simp add: semver_satisfies_ge_def minCheckovVersion_def parseSemver_min p)
  with a show ?thesis by simp
qed

lemma getCheckovVersion_Inl:
  assumes "normalizedVersion cfg \<noteq> ''''" and "normalizedVersion cfg \<noteq> ''latest''"
    and "\<not> (semver_valid (normalizedVersion cfg) \<noteq> None
            \<and> semver_satisfies_ge (normalizedVersion cfg) minCheckovVersion)"
  shows "\<exists>msg. getCheckovVersion cfg = Inl (Error msg)"
  using assms by (auto simp: getCheckovVersion_def Let_def split: option.splits)

lemma version_error_stops_commands:
  assumes "getCheckovVersion (config s) = Inl e"
  shows "pendingInstalls (installOrUpdateCheckovCommand s) = pendingInstalls s
    \<and> runScanDebounced (runFileScanCommand env fileUri time s) = runScanDebounced s
    \<and> inFlight (runFileScanCommand env fileUri time s) = inFlight s
    \<and> checkovCalls (effects (runFileScanCommand env fileUri time s)) = checkovCalls (effects s)"
  using assms
  by (auto simp: installOrUpdateCheckovCommand_def installCatch_def runFileScanCommand_def
      resetCancelTokenSource_def assureTokenSet_def ui_defs Let_def split: prod.splits)

text \<open>
  C6, amended: what \<open>getCheckovVersion\<close> returns is \<open>latest\<close> or a valid semantic
  version that satisfies \<open>>=2.0.0\<close>. It raises an error for every configured string whose
  trimmed, lower-cased form is neither empty nor \<open>latest\<close> nor a valid version that
  satisfies \<open>>=2.0.0\<close>. When it raises, the installation command has started no
  installation and the scan command has not called \<open>runScan\<close>.
\<close>

theorem getCheckovVersion_validates:
  "(getCheckovVersion cfg = Inr v \<longrightarrow>
      v = ''latest'' \<or> (semver_valid v = Some v \<and> semver_satisfies_ge v minCheckovVersion))
   \<and> (normalizedVersion cfg \<noteq> '''' \<and> normalizedVersion cfg \<noteq> ''latest''
        \<and> \<not> (semver_valid (normalizedVersion cfg) \<noteq> None
              \<and> semver_satisfies_ge (normalizedVersion cfg) minCheckovVersion)
       \<longrightarrow> (\<exists>msg. getCheckovVersion cfg = Inl (Error msg)))
   \<and> (getCheckovVersion (config s) = Inl e \<longrightarrow>
        pendingInstalls (installOrUpdateCheckovCommand s) = pendingInstalls s
        \<and> runScanDebounced (runFileScanCommand env fileUri time s) = runScanDebounced s
        \<and> inFlight (runFileScanCommand env fileUri time s) = inFlight s
        \<and> checkovCalls (effects (runFileScanCommand env fileUri time s)) = checkovCalls (effects s))"
proof -
  have a: "getCheckovVersion cfg = Inr v \<longrightarrow>
      v = ''latest'' \<or> (semver_valid v = Some v \<and> semver_satisfies_ge v minCheckovVersion)"
    using getCheckovVersion_Inr [of cfg v] by blast
  have b: "normalizedVersion cfg \<noteq> '''' \<and> normalizedVersion cfg \<noteq> ''latest''
        \<and> \<not> (semver_valid (normalizedVersion cfg) \<noteq> None
              \<and> semver_satisfies_ge (normalizedVersion cfg) minCheckovVersion)
       \<longrightarrow> (\<exists>msg. getCheckovVersion cfg = Inl (Error msg))"
    using getCheckovVersion_Inl [of cfg] by blast
  have c: "getCheckovVersion (config s) = Inl e \<longrightarrow>
        pendingInstalls (installOrUpdateCheckovCommand s) = pendingInstalls s
        \<and> runScanDebounced (runFileScanCommand env fileUri time s) = runScanDebounced s
        \<and> inFlight (runFileScanCommand env fileUri time s) = inFlight s
        \<and> checkovCalls (effects (runFileScanCommand env fileUri time s)) = checkovCalls (effects s)"
    using version_error_stops_commands [of s e env fileUri time] by blast
  from a b c show ?thesis by (intro conjI)
qed

lemma getCheckovVersion_old:
  "getCheckovVersion (config0\<lparr>cfg_checkovVersion := Some ''1.9.9''\<rparr>)
     = Inl (Error ''Invalid checkov version: 1.9.9 (must be >=2.0.0)'')"
proof -
  have "toLowerCase (trim ''1.9.9'') = ''1.9.9''"
    by code_simp
  then have n: "normalizedVersion (config0\<lparr>cfg_checkovVersion := Some ''1.9.9''\<rparr>) = ''1.9.9''"
    by (simp add: normalizedVersion_def)
  have m: "matchFULL ''1.9.9'' = Some (''1'', ''9'', ''9'', None, None)"
    by code_simp
  have t: "trim ''1.9.9'' = ''1.9.9''"
    by code_simp
  have f: "showNat (Suc 0) = ''1''" "showNat 9 = ''9''"
    by code_simp+
  have r: "readNat ''1'' = 1" "readNat ''9'' = 9"
    by code_simp+
  have p: "parseSemver ''1.9.9''
             = Some \<lparr> major = 1, minor = 9, patch = 9, prerelease = [], build = [] \<rparr>"
    by (simp add: parseSemver_def m t r MAX_LENGTH_def MAX_SAFE_INTEGER_def)
  have c: "semver_clean ''1.9.9'' = Some ''1.9.9''"
    by (simp add: semver_clean_def t p formatSemver_def f)
  have v: "semver_valid ''1.9.9'' = Some ''1.9.9''"
    by (simp add: semver_valid_def p formatSemver_def f)
  have g: "\<not> semver_satisfies_ge ''1.9.9'' ''2.0.0''"
    by (simp add: semver_satisfies_ge_def parseSemver_min p compareMain_def)
  show ?thesis
    unfolding getCheckovVersion_def n by (simp add: c v g minCheckovVersion_def)
qed

theorem getCheckovVersion_validates_witness:
  "getCheckovVersion (config0\<lparr>cfg_checkovVersion := Some ''  V2.3.4+abc ''\<rparr>) = Inr ''2.3.4''
   \<and> semver_valid ''2.3.4'' = Some ''2.3.4''
   \<and> semver_satisfies_ge ''2.3.4'' minCheckovVersion
   \<and> getCheckovVersion (config0\<lparr>cfg_checkovVersion := Some ''1.9.9''\<rparr>)
       = Inl (Error ''Invalid checkov version: 1.9.9 (must be >=2.0.0)'')
   \<and> pendingInstalls (installOrUpdateCheckovCommand (ready0\<lparr>config := config0\<lparr>cfg_checkovVersion := Some ''1.9.9''\<rparr>\<rparr>)) = []
   \<and> checkovCalls (effects (runFileScanCommand host0 None 20
        (ready0\<lparr>config := config0\<lparr>cfg_checkovVersion := Some ''1.9.9''\<rparr>\<rparr>))) = []"
proof -
  let ?s = "ready0\<lparr>config := config0\<lparr>cfg_checkovVersion := Some ''1.9.9''\<rparr>\<rparr>"
  have l: "''2.3.4'' \<noteq> ''latest''" by simp
  have c: "config ?s = config0\<lparr>cfg_checkovVersion := Some ''1.9.9''\<rparr>" by simp
  have e: "pendingInstalls ?s = []" "checkovCalls (effects ?s) = []"
    by (simp_all add: ready0_eq)
  note inst = getCheckovVersion_validates
         [of "config0\<lparr>cfg_checkovVersion := Some ''  V2.3.4+abc ''\<rparr>" "''2.3.4''" ?s
             "Error ''Invalid checkov version: 1.9.9 (must be >=2.0.0)''" host0 None 20]
  from inst have "getCheckovVersion (config0\<lparr>cfg_checkovVersion := Some ''  V2.3.4+abc ''\<rparr>)
        = Inr ''2.3.4'' \<longrightarrow> ''2.3.4'' = ''latest''
          \<or> (semver_valid ''2.3.4'' = Some ''2.3.4'' \<and> semver_satisfies_ge ''2.3.4'' minCheckovVersion)"
    by (rule conjunct1)
  then have a: "semver_valid ''2.3.4'' = Some ''2.3.4'' \<and> semver_satisfies_ge ''2.3.4'' minCheckovVersion"
    using l by (simp add: getCheckovVersion_example)
  from inst have "getCheckovVersion (config ?s) = Inl (Error ''Invalid checkov version: 1.9.9 (must be >=2.0.0)'') \<longrightarrow>
        pendingInstalls (installOrUpdateCheckovCommand ?s) = pendingInstalls ?s
        \<and> runScanDebounced (runFileScanCommand host0 None 20 ?s) = runScanDebounced ?s
        \<and> inFlight (runFileScanCommand host0 None 20 ?s) = inFlight ?s
        \<and> checkovCalls (effects (runFileScanCommand host0 None 20 ?s)) = checkovCalls (effects ?s)"
    by (rule conjunct2 [THEN conjunct2])
  then have b: "pendingInstalls (installOrUpdateCheckovCommand ?s) = []
        \<and> checkovCalls (effects (runFileScanCommand host0 None 20 ?s)) = []"
    unfolding c e by (simp add: getCheckovVersion_old)
  from a b show ?thesis
    by (simp add: getCheckovVersion_example getCheckovVersion_old)
qed

text \<open>
  C6 as it is stated fails at the empty string: it is not \<open>latest\<close> and not a valid
  version, and \<open>getCheckovVersion\<close> returns \<open>latest\<close> for it instead of raising.
\<close>

theorem getCheckovVersion_empty_counterexample:
  "getCheckovVersion (config0\<lparr>cfg_checkovVersion := Some ''''\<rparr>) = Inr ''latest''
   \<and> '''' \<noteq> ''latest'' \<and> semver_valid '''' = None"
proof -
  have "matchFULL '''' = None" by code_simp
  moreover have "trim '''' = ''''" by code_simp
  ultimately have "semver_valid '''' = None"
    by (simp add: semver_valid_def parseSemver_def)
  moreover have "getCheckovVersion (config0\<lparr>cfg_checkovVersion := Some ''''\<rparr>) = Inr ''latest''"
    by (simp add: getCheckovVersion_def normalizedVersion_def trim_def toLowerCase_def)
  ultimately show ?thesis by simp
qed

section \<open>Claims about single handlers\<close>

lemma superseded0_fields:
  "inFlight superseded0 = [args0 1]" "checkovRunCancelTokenSource superseded0 = 2"
  "extensionReady superseded0"
  by (simp_all add: superseded0_def ready0_eq ui_defs config_defs command_defs debounce_defs
      getCheckovVersion_default onDidSaveTextDocument_def step_def
      advanceTo.simps runScan_func_def example_defs args0_def tempFileUri_def Let_def)

text \<open>
  C5: a scan requested while the extension is not ready is rejected with a warning of its
  own: the handler of the scan command logs a warning, shows a warning message and does
  nothing else. It does not call the debounced \<open>runScan\<close>, no call of the scanner is
  in flight or recorded that was not before.
\<close>

theorem scan_request_rejected_while_not_ready:
  assumes "\<not> extensionReady s"
  shows "runFileScanCommand env fileUri time s =
           emit [LogWarn ''Tried to scan before checkov finished installing or updating. Please wait a few seconds and try again.'',
                 ShowWarningMessage ''Still installing/updating Checkov, please wait a few seconds and try again.''] s
         \<and> runScanDebounced (runFileScanCommand env fileUri time s) = runScanDebounced s
         \<and> inFlight (runFileScanCommand env fileUri time s) = inFlight s
         \<and> checkovCalls (effects (runFileScanCommand env fileUri time s)) = checkovCalls (effects s)"
  using assms by (simp add: runFileScanCommand_def emit_def)

theorem scan_request_rejected_while_not_ready_witness:
  "\<not> extensionReady installing0
   \<and> runFileScanCommand host0 None 5 installing0 =
       emit [LogWarn ''Tried to scan before checkov finished installing or updating. Please wait a few seconds and try again.'',
             ShowWarningMessage ''Still installing/updating Checkov, please wait a few seconds and try again.''] installing0
   \<and> checkovCalls (effects (runFileScanCommand host0 None 5 installing0)) = []"
proof -
  have h: "\<not> extensionReady installing0"
    by (simp add: installing0_eq)
  have "checkovCalls (effects installing0) = []"
    by (simp add: installing0_eq)
  with scan_request_rejected_while_not_ready [OF h, of host0 None 5] h show ?thesis
    by (simp add: emit_def)
qed

text \<open>
  C9: when the call of the scanner fails for a scan whose token has been cancelled, the
  \<open>catch\<close> block returns at once: the state is the one before, but for the call that is
  no longer in flight. The status bar, the effects (no log entry, no message) and the
  diagnostics are unchanged.
\<close>

theorem cancelled_scan_exits_silently:
  assumes "i < length (inFlight s)"
    and "isCancellationRequested s (sa_cancelToken (inFlight s ! i))"
  shows "step env (CheckovScanSettled i None) time s = s\<lparr>inFlight := dropAt i (inFlight s)\<rparr>
         \<and> statusBar (step env (CheckovScanSettled i None) time s) = statusBar s
         \<and> effects (step env (CheckovScanSettled i None) time s) = effects s
         \<and> diagnostics (step env (CheckovScanSettled i None) time s) = diagnostics s"
  using assms
  by (simp add: step_def scanSettled_def runScan_resume_def runCheckovScan_def runScan_catch_def
      isCancellationRequested_def)

theorem cancelled_scan_exits_silently_witness:
  "0 < length (inFlight superseded0)
   \<and> isCancellationRequested superseded0 (sa_cancelToken (inFlight superseded0 ! 0))
   \<and> step host0 (CheckovScanSettled 0 None) 450 superseded0 = superseded0\<lparr>inFlight := []\<rparr>
   \<and> effects (step host0 (CheckovScanSettled 0 None) 450 superseded0) = effects superseded0"
proof -
  have h1: "0 < length (inFlight superseded0)"
    by (simp add: superseded0_fields)
  have h2: "isCancellationRequested superseded0 (sa_cancelToken (inFlight superseded0 ! 0))"
    by (simp add: superseded0_fields isCancellationRequested_def args0_def)
  from cancelled_scan_exits_silently [OF h1 h2, of host0 450] h1 h2 show ?thesis
    by (simp add: superseded0_fields dropAt_def)
qed

text \<open>
  C4: a change of a document none of whose content changes contains a newline requests
  no scan. The handler does nothing or only removes the diagnostics: it writes no
  temporary file, it does not touch the debounced \<open>runScan\<close>, and no call of the
  scanner is started.
\<close>

theorem edit_without_newline_requests_no_scan:
  assumes "\<forall>change \<in> set (ce_contentChanges changeEvent). CHR 0x0A \<notin> set change"
  shows "(onDidChangeTextDocument env changeEvent s = s
          \<or> onDidChangeTextDocument env changeEvent s = removeDiagnosticsCommand s)
         \<and> pendingWrites (onDidChangeTextDocument env changeEvent s) = pendingWrites s
         \<and> runScanDebounced (onDidChangeTextDocument env changeEvent s) = runScanDebounced s
         \<and> inFlight (onDidChangeTextDocument env changeEvent s) = inFlight s
         \<and> checkovCalls (effects (onDidChangeTextDocument env changeEvent s)) = checkovCalls (effects s)"
proof -
  have no: "\<not> list_ex (\<lambda>change. CHR 0x0A \<in> set change) (ce_contentChanges changeEvent)"
    using assms by (simp add: list_ex_iff)
  have rm: "pendingWrites (removeDiagnosticsCommand s) = pendingWrites s
       \<and> runScanDebounced (removeDiagnosticsCommand s) = runScanDebounced s
       \<and> inFlight (removeDiagnosticsCommand s) = inFlight s
       \<and> checkovCalls (effects (removeDiagnosticsCommand s)) = checkovCalls (effects s)"
    by (simp add: removeDiagnosticsCommand_def applyDiagnostics_def ui_defs split: option.splits)
  show ?thesis
    using no rm by (simp add: onDidChangeTextDocument_def)
qed

theorem edit_without_newline_requests_no_scan_witness:
  "ce_contentChanges change0 = [''x'']
   \<and> onDidChangeTextDocument host0 change0 ready0 = removeDiagnosticsCommand ready0
   \<and> pendingWrites (onDidChangeTextDocument host0 change0 ready0) = []
   \<and> checkovCalls (effects (onDidChangeTextDocument host0 change0 ready0)) = []"
proof -
  have h: "\<forall>change \<in> set (ce_contentChanges change0). CHR 0x0A \<notin> set change"
    by (simp add: change0_def)
  have e: "onDidChangeTextDocument host0 change0 ready0 = removeDiagnosticsCommand ready0"
    using h by (simp add: onDidChangeTextDocument_def list_ex_iff ready0_eq change0_def
        example_defs)
  have f: "pendingWrites ready0 = []" "checkovCalls (effects ready0) = []"
    by (simp_all add: ready0_eq)
  from edit_without_newline_requests_no_scan [OF h, of host0 ready0] e f show ?thesis
    by (simp add: change0_def)
qed

lemma scanning0_fields:
  "inFlight scanning0 = [args0 1]" "checkovRunCancelTokenSource scanning0 = 1"
  "installedVersion scanning0 = Some ''3.0.0''"
  by (simp_all add: scanning0_def ready0_eq ui_defs config_defs command_defs debounce_defs
      advanceTo.simps runScan_func_def example_defs args0_def tempFileUri_def Let_def)

lemma resultMapper_example:
  "resultMapper doc0 [finding1, finding2] =
     [\<lparr> d_ruleId = ''CKV_AWS_18'', d_filePath = ''main.tf'', d_startLine = 3, d_endLine = 4,
        d_severity = ''LOW'', d_guidelineUrl = None \<rparr>,
      \<lparr> d_ruleId = ''CKV_AWS_20'', d_filePath = ''main.tf'', d_startLine = 10, d_endLine = 10,
        d_severity = ''HIGH'', d_guidelineUrl = None \<rparr>]"
  by code_simp

text \<open>
  C8: when a scan whose token is not cancelled completes, its failed checks become the
  diagnostics of the document of its editor: as many diagnostics as failed checks, in
  ascending order of (filePath, startLine, ruleId). Without failed checks the document has
  no diagnostics and the status bar shows passed; with failed checks it shows the error
  status.
\<close>

theorem completed_scan_applies_result:
  assumes "i < length (inFlight s)"
    and "\<not> isCancellationRequested s (sa_cancelToken (inFlight s ! i))"
  shows "diagnostics (step env (CheckovScanSettled i (Some failedChecks)) time s)
           (doc_uri (sa_editor (inFlight s ! i)))
         = resultMapper (sa_editor (inFlight s ! i)) failedChecks
       \<and> length (resultMapper (sa_editor (inFlight s ! i)) failedChecks) = length failedChecks
       \<and> sorted (map diagnosticKey (resultMapper (sa_editor (inFlight s ! i)) failedChecks))
       \<and> (failedChecks = [] \<longrightarrow>
            diagnostics (step env (CheckovScanSettled i (Some failedChecks)) time s)
              (doc_uri (sa_editor (inFlight s ! i))) = []
            \<and> statusBar (step env (CheckovScanSettled i (Some failedChecks)) time s)
                = Passed (installedVersion s))
       \<and> (failedChecks \<noteq> [] \<longrightarrow>
            statusBar (step env (CheckovScanSettled i (Some failedChecks)) time s)
              = ErrorStatus (installedVersion s))"
  using assms
  by (simp add: step_def scanSettled_def runScan_resume_def runCheckovScan_def
      isCancellationRequested_def saveCheckovResult_def applyDiagnostics_def ui_defs
      resultMapper_def Let_def)

theorem completed_scan_applies_result_witness:
  "diagnostics (step host0 (CheckovScanSettled 0 (Some [finding1, finding2])) 320 scanning0)
     ''file:///main.tf''
   = [\<lparr> d_ruleId = ''CKV_AWS_18'', d_filePath = ''main.tf'', d_startLine = 3, d_endLine = 4,
        d_severity = ''LOW'', d_guidelineUrl = None \<rparr>,
      \<lparr> d_ruleId = ''CKV_AWS_20'', d_filePath = ''main.tf'', d_startLine = 10, d_endLine = 10,
        d_severity = ''HIGH'', d_guidelineUrl = None \<rparr>]
   \<and> statusBar (step host0 (CheckovScanSettled 0 (Some [finding1, finding2])) 320 scanning0)
       = ErrorStatus (Some ''3.0.0'')
   \<and> diagnostics (step host0 (CheckovScanSettled 0 (Some [])) 320 scanning0) ''file:///main.tf'' = []
   \<and> statusBar (step host0 (CheckovScanSettled 0 (Some [])) 320 scanning0) = Passed (Some ''3.0.0'')"
proof -
  have h1: "0 < length (inFlight scanning0)"
    by (simp add: scanning0_fields)
  have h2: "\<not> isCancellationRequested scanning0 (sa_cancelToken (inFlight scanning0 ! 0))"
    by (simp add: scanning0_fields isCancellationRequested_def args0_def)
  have d: "sa_editor (inFlight scanning0 ! 0) = doc0"
    by (simp add: scanning0_fields args0_def doc0_def)
  have u: "doc_uri doc0 = ''file:///main.tf''"
    by (simp add: doc0_def)
  note two = completed_scan_applies_result [OF h1 h2, of host0 "[finding1, finding2]" 320,
      unfolded d u]
  note none = completed_scan_applies_result [OF h1 h2, of host0 "[]" 320, unfolded d u]
  from two none show ?thesis
    by (simp add: resultMapper_example scanning0_fields(3))
qed

lemmas eval_defs = ui_defs config_defs command_defs debounce_defs getCheckovVersion_default
  advanceTo.simps step_def scanSettled_def runScan_resume_def runScan_catch_def
  runCheckovScan_def isCancellationRequested_def runScan_func_def onDidSaveTextDocument_def
  onDidChangeActiveTextEditor_def dropAt_def example_defs args0_def call0_def tempFileUri_def
  Let_def

lemma idle0_eq:
  "idle0 =
     \<lparr> extensionReady = True, checkovRunCancelTokenSource = 1,
       checkovInstallation = Some (installation0\<lparr>inst_version := Some ''3.0.0''\<rparr>),
       nextInstallationId = 1, diagnostics = (\<lambda>u. []), workspaceState = [],
       statusBar = Passed (Some ''3.0.0''),
       runScanDebounced = \<lparr> lastArgs = None, lastCallTime = Some 10, lastInvokeTime = 310,
                            timerId = None \<rparr>,
       inFlight = [], pendingWrites = [], pendingInstalls = [],
       pendingVersionCommands = [], tempFile = None, activeTextEditor = Some doc0,
       config = config0,
       effects = effects ready0 @
                 [LogInfo ''Starting to scan.'',
                  SetStatusBar (Syncing (Some ''3.0.0'') ''Checkov scanning''),
                  RunCheckovScan (call0 1),
                  SaveCheckovResult [], SetDiagnostics ''file:///main.tf'' [],
                  SetStatusBar (Passed (Some ''3.0.0''))] \<rparr>"
  by (simp add: idle0_def ready0_eq eval_defs fun_upd_idem)

lemma checkovCalls_ready0: "checkovCalls (effects ready0) = []"
  by (simp add: ready0_eq)

text \<open>
  The sibling case of C7: without a token the scan command reports the missing
  configuration and does not call \<open>runScan\<close>.
\<close>

lemma missing_token_requests_no_scan:
  assumes "extensionReady s" and "falsy (cfg_token (config s))"
  shows "runScanDebounced (runFileScanCommand env fileUri time s) = runScanDebounced s
       \<and> inFlight (runFileScanCommand env fileUri time s) = inFlight s
       \<and> checkovCalls (effects (runFileScanCommand env fileUri time s)) = checkovCalls (effects s)
       \<and> ShowErrorMessage ''Bridgecrew API token was not found. Please add it to the configuration in order to scan your code.''
            \<in> set (effects (runFileScanCommand env fileUri time s))"
  using assms
  by (auto simp: runFileScanCommand_def resetCancelTokenSource_def assureTokenSet_def
      removeDiagnosticsCommand_def applyDiagnostics_def ui_defs Let_def
      split: sum.splits option.splits)

text \<open>
  C7 at a Prisma token without Prisma URL: the scan command shows the error message and
  sets the status of a missing configuration, sets the ready status over it, and requests
  the scan all the same: 300 ms later the scanner is called with the Prisma token and
  without Prisma URL.
\<close>

theorem prisma_token_without_url_is_scanned:
  "getTokenType host0 ''key::secret'' = ''prisma''
   \<and> cfg_token prismaConfig0 = Some ''key::secret'' \<and> getPrismaUrl prismaConfig0 = None
   \<and> effects prisma0 = effects idle0 @
        [LogError ''Prisma token was identified but no Prisma URL was found'',
         ShowErrorMessage ''Prisma token was identified but no Prisma URL was found. In order to authenticate with your app you must provide Prisma URL'',
         SetStatusBar (MissingConfiguration (Some ''3.0.0'')),
         SetStatusBar (Ready (Some ''3.0.0'')),
         SetDiagnostics ''file:///main.tf'' []]
   \<and> statusBar prisma0 = Ready (Some ''3.0.0'')
   \<and> checkovCalls (effects (advanceTo host0 800 prisma0))
       = [call0 1, (call0 2)\<lparr>run_token := ''key::secret''\<rparr>]"
  by (simp add: prisma0_def prismaConfig0_def idle0_eq checkovCalls_ready0 eval_defs)

section \<open>The debounced runScan\<close>

lemma wait_pos [simp]: "0 < wait"
  by (simp add: wait_def)

lemma runScan_func_frame [simp]:
  "runScanDebounced (runScan_func env a s) = runScanDebounced s"
  "checkovRunCancelTokenSource (runScan_func env a s) = checkovRunCancelTokenSource s"
  "tempFile (runScan_func env a s) = tempFile s"
  "config (runScan_func env a s) = config s"
  "extensionReady (runScan_func env a s) = extensionReady s"
  "checkovInstallation (runScan_func env a s) = checkovInstallation s"
  "activeTextEditor (runScan_func env a s) = activeTextEditor s"
  by (simp_all add: runScan_func_def ui_defs Let_def split: option.splits)

lemma runScan_func_calls:
  "checkovInstallation s = Some inst \<Longrightarrow>
   checkovCalls (effects (runScan_func env a s)) = checkovCalls (effects s) @ [checkovCallOf env a s inst]"
  "checkovInstallation s = Some inst \<Longrightarrow> inFlight (runScan_func env a s) = inFlight s @ [a]"
  by (simp_all add: runScan_func_def checkovCallOf_def ui_defs Let_def)

lemma advanceTo_idle:
  "timerId (runScanDebounced s) = None \<Longrightarrow> advanceTo env t s = s"
  by (simp add: advanceTo.simps)

lemma advanceTo_not_due:
  "timerId (runScanDebounced s) = Some due \<Longrightarrow> t < due \<Longrightarrow> advanceTo env t s = s"
  by (simp add: advanceTo.simps)

lemma advanceTo_rearm:
  assumes "timerId (runScanDebounced s) = Some due"
    and "lastCallTime (runScanDebounced s) = Some lc"
    and "lc \<le> due" "due < lc + wait" "due \<le> t" "t < lc + wait"
  shows "advanceTo env t s
         = s\<lparr>runScanDebounced := (runScanDebounced s)\<lparr>timerId := Some (lc + wait)\<rparr>\<rparr>"
proof -
  have e: "timerExpired env due s
           = s\<lparr>runScanDebounced := (runScanDebounced s)\<lparr>timerId := Some (lc + wait)\<rparr>\<rparr>"
    using assms by (simp add: timerExpired_def shouldInvoke_def remainingWait_def)
  have "advanceTo env t s = advanceTo env t (timerExpired env due s)"
    using assms by (subst advanceTo.simps) simp
  also have "\<dots> = timerExpired env due s"
    unfolding e using assms by (intro advanceTo_not_due [where due = "lc + wait"]) simp_all
  finally show ?thesis by (simp add: e)
qed

lemma advanceTo_fire_due:
  assumes "timerId (runScanDebounced s) = Some (lc + wait)"
    and "lastCallTime (runScanDebounced s) = Some lc"
    and "lastArgs (runScanDebounced s) = Some a"
    and "lc + wait \<le> t"
  shows "advanceTo env t s
         = runScan_func env a
             (s\<lparr>runScanDebounced := (runScanDebounced s)
                   \<lparr>timerId := None, lastArgs := None, lastInvokeTime := lc + wait\<rparr>\<rparr>)"
proof -
  have e: "timerExpired env (lc + wait) s
           = runScan_func env a
               (s\<lparr>runScanDebounced := (runScanDebounced s)
                     \<lparr>timerId := None, lastArgs := None, lastInvokeTime := lc + wait\<rparr>\<rparr>)"
    using assms by (simp add: timerExpired_def shouldInvoke_def trailingEdge_def invokeFunc_def)
  have "advanceTo env t s = advanceTo env t (timerExpired env (lc + wait) s)"
    using assms by (subst advanceTo.simps) simp
  also have "\<dots> = timerExpired env (lc + wait) s"
    unfolding e by (intro advanceTo_idle) simp
  finally show ?thesis by (simp add: e)
qed

lemma advanceTo_fire:
  assumes "timerId (runScanDebounced s) = Some due"
    and "lastCallTime (runScanDebounced s) = Some lc"
    and "lastArgs (runScanDebounced s) = Some a"
    and "lc \<le> due" "due \<le> lc + wait" "lc + wait \<le> t"
  shows "advanceTo env t s
         = runScan_func env a
             (s\<lparr>runScanDebounced := (runScanDebounced s)
                   \<lparr>timerId := None, lastArgs := None, lastInvokeTime := lc + wait\<rparr>\<rparr>)"
proof (cases "due = lc + wait")
  case True
  with assms show ?thesis by (intro advanceTo_fire_due) simp_all
next
  case False
  let ?s1 = "s\<lparr>runScanDebounced := (runScanDebounced s)\<lparr>timerId := Some (lc + wait)\<rparr>\<rparr>"
  from False assms have lt: "due < lc + wait" by simp
  have e: "timerExpired env due s = ?s1"
    using assms lt by (simp add: timerExpired_def shouldInvoke_def remainingWait_def)
  have "advanceTo env t s = advanceTo env t ?s1"
    using assms e by (subst advanceTo.simps) simp
  also have "\<dots> = runScan_func env a
             (?s1\<lparr>runScanDebounced := (runScanDebounced ?s1)
                   \<lparr>timerId := None, lastArgs := None, lastInvokeTime := lc + wait\<rparr>\<rparr>)"
    using assms by (intro advanceTo_fire_due) simp_all
  finally show ?thesis by simp
qed

lemma scheduled_quiet:
  assumes "scheduled t a s" and "t' < t + wait"
  shows "\<exists>due. advanceTo env t' s
               = s\<lparr>runScanDebounced := (runScanDebounced s)\<lparr>timerId := Some due\<rparr>\<rparr>
             \<and> t' < due \<and> t < due \<and> due \<le> t + wait"
proof -
  from assms(1) obtain due where due: "timerId (runScanDebounced s) = Some due"
    and lc: "lastCallTime (runScanDebounced s) = Some t" and b: "t < due" "due \<le> t + wait"
    by (auto simp: scheduled_def split: option.splits)
  show ?thesis
  proof (cases "t' < due")
    case True
    with due have "advanceTo env t' s = s" by (intro advanceTo_not_due)
    with due have "advanceTo env t' s
        = s\<lparr>runScanDebounced := (runScanDebounced s)\<lparr>timerId := Some due\<rparr>\<rparr>"
      by (metis debounced.surjective debounced.update_convs(4) state.surjective
          state.update_convs(8))
    with True b show ?thesis by blast
  next
    case False
    with due lc b assms(2) have "advanceTo env t' s
        = s\<lparr>runScanDebounced := (runScanDebounced s)\<lparr>timerId := Some (t + wait)\<rparr>\<rparr>"
      by (intro advanceTo_rearm [where due = due]) simp_all
    with assms(2) show ?thesis by auto
  qed
qed

lemma scheduled_fire:
  assumes "scheduled t a s" and "t + wait \<le> T"
  shows "advanceTo env T s
         = runScan_func env a
             (s\<lparr>runScanDebounced := (runScanDebounced s)
                   \<lparr>timerId := None, lastArgs := None, lastInvokeTime := t + wait\<rparr>\<rparr>)"
proof -
  from assms(1) obtain due where "timerId (runScanDebounced s) = Some due"
    "lastCallTime (runScanDebounced s) = Some t" "lastArgs (runScanDebounced s) = Some a"
    "t \<le> due" "due \<le> t + wait"
    by (auto simp: scheduled_def split: option.splits)
  with assms(2) show ?thesis by (intro advanceTo_fire) simp_all
qed

lemma runFileScanCommand_schedules:
  assumes "extensionReady s" and "\<not> falsy (cfg_token (config s))"
    and "getCheckovVersion (config s) = Inr v" and "activeTextEditor s = Some editor"
    and "fileUri = None \<longrightarrow> isSupportedFileType env (doc_fileName editor) True"
    and "timerInTime t s"
  shows "scheduled t (scanArgsOf fileUri editor v s) (runFileScanCommand env fileUri t s)"
    and "checkovRunCancelTokenSource (runFileScanCommand env fileUri t s)
         = Suc (checkovRunCancelTokenSource s)"
    and "inFlight (runFileScanCommand env fileUri t s) = inFlight s"
    and "checkovCalls (effects (runFileScanCommand env fileUri t s)) = checkovCalls (effects s)"
    and "tempFile (runFileScanCommand env fileUri t s) = tempFile s"
    and "config (runFileScanCommand env fileUri t s) = config s"
    and "extensionReady (runFileScanCommand env fileUri t s)"
    and "checkovInstallation (runFileScanCommand env fileUri t s) = checkovInstallation s"
    and "activeTextEditor (runFileScanCommand env fileUri t s) = activeTextEditor s"
  using assms
  by (auto simp: runFileScanCommand_def resetCancelTokenSource_def assureTokenSet_def
      removeDiagnosticsCommand_def applyDiagnostics_def ui_defs runScan_def shouldInvoke_def
      scheduled_def timerInTime_def scanArgsOf_def Let_def
      split: option.splits)

lemma rapid_chain:
  assumes "scheduled t a s" and "sa_fileUri a = Some (tempFileUri env)"
    and "tempFile s = Some tx" and "sa_cancelToken a = checkovRunCancelTokenSource s"
    and "extensionReady s" and "\<not> falsy (cfg_token (config s))"
    and "getCheckovVersion (config s) = Inr v" and "activeTextEditor s = Some editor"
    and "checkovInstallation s = Some inst"
    and "rapid t rs" and "fst (last ((t, tx) # rs)) + wait \<le> T"
  shows "\<exists>c. checkovCalls (effects (advanceTo env T (editScanRequests env rs s)))
               = checkovCalls (effects s) @ [c]
           \<and> run_filePath c = tempFileUri env
           \<and> run_scannedText c = Some (snd (last ((t, tx) # rs)))
           \<and> run_cancelToken c = checkovRunCancelTokenSource s + length rs"
  using assms
proof (induction rs arbitrary: t a s tx)
  case Nil
  let ?s1 = "s\<lparr>runScanDebounced := (runScanDebounced s)
                 \<lparr>timerId := None, lastArgs := None, lastInvokeTime := t + wait\<rparr>\<rparr>"
  from Nil have fire: "advanceTo env T s = runScan_func env a ?s1"
    by (intro scheduled_fire) simp_all
  have "checkovInstallation ?s1 = Some inst" using Nil by simp
  then have "checkovCalls (effects (runScan_func env a ?s1))
      = checkovCalls (effects ?s1) @ [checkovCallOf env a ?s1 inst]"
    by (rule runScan_func_calls)
  with fire Nil show ?case
    by (simp add: checkovCallOf_def)
next
  case (Cons r rs)
  obtain t' tx' where r: "r = (t', tx')" by (cases r)
  from Cons.prems r have t': "t \<le> t'" "t' < t + wait" and rapid': "rapid t' rs"
    by simp_all
  from scheduled_quiet [OF Cons.prems(1) t'(2), of env] obtain due
    where adv: "advanceTo env t' s
                = s\<lparr>runScanDebounced := (runScanDebounced s)\<lparr>timerId := Some due\<rparr>\<rparr>"
      and due: "t' < due" "due \<le> t + wait"
    by blast
  let ?s1 = "emit [LogDebug ''Saved temporary file, now scanning'']
               ((advanceTo env t' s)\<lparr>tempFile := Some tx'\<rparr>)"
  let ?s2 = "runFileScanCommand env (Some (tempFileUri env)) t' ?s1"
  let ?a' = "scanArgsOf (Some (tempFileUri env)) editor v ?s1"
  have s1: "extensionReady ?s1" "\<not> falsy (cfg_token (config ?s1))"
    "getCheckovVersion (config ?s1) = Inr v" "activeTextEditor ?s1 = Some editor"
    "checkovInstallation ?s1 = Some inst" "tempFile ?s1 = Some tx'"
    "checkovCalls (effects ?s1) = checkovCalls (effects s)"
    "checkovRunCancelTokenSource ?s1 = checkovRunCancelTokenSource s"
    using Cons.prems by (simp_all add: adv emit_def)
  have tm: "timerInTime t' ?s1"
    using due t' by (simp add: adv emit_def timerInTime_def)
  have sup: "Some (tempFileUri env) = None \<longrightarrow> isSupportedFileType env (doc_fileName editor) True"
    by simp
  note req = runFileScanCommand_schedules [OF s1(1) s1(2) s1(3) s1(4) sup tm]
  have "\<exists>c. checkovCalls (effects (advanceTo env T (editScanRequests env rs ?s2)))
               = checkovCalls (effects ?s2) @ [c]
           \<and> run_filePath c = tempFileUri env
           \<and> run_scannedText c = Some (snd (last ((t', tx') # rs)))
           \<and> run_cancelToken c = checkovRunCancelTokenSource ?s2 + length rs"
  proof (rule Cons.IH [of t' ?a' ?s2 tx'])
    show "scheduled t' ?a' ?s2" by (rule req(1))
    show "sa_fileUri ?a' = Some (tempFileUri env)" by (simp add: scanArgsOf_def)
    show "tempFile ?s2 = Some tx'" using req(5) s1(6) by simp
    show "sa_cancelToken ?a' = checkovRunCancelTokenSource ?s2"
      using req(2) by (simp add: scanArgsOf_def)
    show "extensionReady ?s2" by (rule req(7))
    show "\<not> falsy (cfg_token (config ?s2))" using req(6) s1(2) by simp
    show "getCheckovVersion (config ?s2) = Inr v" using req(6) s1(3) by simp
    show "activeTextEditor ?s2 = Some editor" using req(9) s1(4) by simp
    show "checkovInstallation ?s2 = Some inst" using req(8) s1(5) by simp
    show "rapid t' rs" by (rule rapid')
    show "fst (last ((t', tx') # rs)) + wait \<le> T" using Cons.prems(11) r by simp
  qed
  moreover have "editScanRequests env (r # rs) s = editScanRequests env rs ?s2"
    by (simp add: r tempFileSaved_def)
  moreover have "checkovCalls (effects ?s2) = checkovCalls (effects s)"
    using req(4) s1(7) by simp
  moreover have "checkovRunCancelTokenSource ?s2 = Suc (checkovRunCancelTokenSource s)"
    using req(2) s1(8) by simp
  ultimately show ?case
    by (simp add: r)
qed

text \<open>
  C3: a sequence of scan requests that edits triggered, each less than 300 ms after the
  one before, makes exactly one call of the scanner, 300 ms after the last request: the
  scanner is given the temporary file, which holds the text of the last request then.
  The extension is ready, a token is set, the configured version is valid, an editor is
  active and Checkov is installed.
\<close>

theorem rapid_edits_dispatch_one_scan:
  assumes "extensionReady s" and "\<not> falsy (cfg_token (config s))"
    and "getCheckovVersion (config s) = Inr v" and "activeTextEditor s = Some editor"
    and "checkovInstallation s = Some inst" and "timerInTime t s"
    and "rapid t rs" and "fst (last ((t, tx) # rs)) + wait \<le> T"
  shows "\<exists>c. checkovCalls (effects (advanceTo env T (editScanRequests env ((t, tx) # rs) s)))
               = checkovCalls (effects s) @ [c]
           \<and> run_filePath c = tempFileUri env
           \<and> run_scannedText c = Some (snd (last ((t, tx) # rs)))
           \<and> run_cancelToken c = checkovRunCancelTokenSource s + Suc (length rs)"
proof -
  have adv: "advanceTo env t s = s"
    using assms(6)
    by (cases "timerId (runScanDebounced s)")
      (auto simp: timerInTime_def intro: advanceTo_idle advanceTo_not_due)
  let ?s1 = "emit [LogDebug ''Saved temporary file, now scanning''] (s\<lparr>tempFile := Some tx\<rparr>)"
  let ?s2 = "runFileScanCommand env (Some (tempFileUri env)) t ?s1"
  let ?a = "scanArgsOf (Some (tempFileUri env)) editor v ?s1"
  have s1: "extensionReady ?s1" "\<not> falsy (cfg_token (config ?s1))"
    "getCheckovVersion (config ?s1) = Inr v" "activeTextEditor ?s1 = Some editor"
    "checkovInstallation ?s1 = Some inst" "tempFile ?s1 = Some tx"
    "checkovCalls (effects ?s1) = checkovCalls (effects s)"
    "checkovRunCancelTokenSource ?s1 = checkovRunCancelTokenSource s"
    using assms by (simp_all add: emit_def)
  have tm: "timerInTime t ?s1"
    using assms(6) by (simp add: emit_def timerInTime_def)
  have sup: "Some (tempFileUri env) = None \<longrightarrow> isSupportedFileType env (doc_fileName editor) True"
    by simp
  note req = runFileScanCommand_schedules [OF s1(1) s1(2) s1(3) s1(4) sup tm]
  have "\<exists>c. checkovCalls (effects (advanceTo env T (editScanRequests env rs ?s2)))
               = checkovCalls (effects ?s2) @ [c]
           \<and> run_filePath c = tempFileUri env
           \<and> run_scannedText c = Some (snd (last ((t, tx) # rs)))
           \<and> run_cancelToken c = checkovRunCancelTokenSource ?s2 + length rs"
  proof (rule rapid_chain [of t ?a ?s2 env tx v editor inst rs T])
    show "scheduled t ?a ?s2" by (rule req(1))
    show "sa_fileUri ?a = Some (tempFileUri env)" by (simp add: scanArgsOf_def)
    show "tempFile ?s2 = Some tx" using req(5) s1(6) by simp
    show "sa_cancelToken ?a = checkovRunCancelTokenSource ?s2"
      using req(2) by (simp add: scanArgsOf_def)
    show "extensionReady ?s2" by (rule req(7))
    show "\<not> falsy (cfg_token (config ?s2))" using req(6) s1(2) by simp
    show "getCheckovVersion (config ?s2) = Inr v" using req(6) s1(3) by simp
    show "activeTextEditor ?s2 = Some editor" using req(9) s1(4) by simp
    show "checkovInstallation ?s2 = Some inst" using req(8) s1(5) by simp
    show "rapid t rs" by (rule assms(7))
    show "fst (last ((t, tx) # rs)) + wait \<le> T" by (rule assms(8))
  qed
  moreover have "editScanRequests env ((t, tx) # rs) s = editScanRequests env rs ?s2"
    by (simp add: adv tempFileSaved_def)
  moreover have "checkovCalls (effects ?s2) = checkovCalls (effects s)"
    using req(4) s1(7) by simp
  moreover have "checkovRunCancelTokenSource ?s2 = Suc (checkovRunCancelTokenSource s)"
    using req(2) s1(8) by simp
  ultimately show ?thesis
    by simp
qed

lemma idle0_fields:
  "extensionReady idle0" "\<not> falsy (cfg_token (config idle0))"
  "getCheckovVersion (config idle0) = Inr ''latest''" "activeTextEditor idle0 = Some doc0"
  "checkovInstallation idle0 = Some (installation0\<lparr>inst_version := Some ''3.0.0''\<rparr>)"
  "checkovCalls (effects idle0) = [call0 1]" "checkovRunCancelTokenSource idle0 = 1"
  "inFlight idle0 = []"
  by (simp_all add: idle0_eq checkovCalls_ready0 falsy_def config0_def getCheckovVersion_default)

lemma idle0_timer: "timerInTime t idle0"
  by (simp add: idle0_eq timerInTime_def)

theorem rapid_edits_dispatch_one_scan_witness:
  "map run_filePath (checkovCalls (effects (advanceTo host0 1400
      (editScanRequests host0 [(1000, ''resource a''), (1100, ''resource a b'')] idle0))))
     = [''main.tf'', ''/storage/temp.tf'']
   \<and> map run_scannedText (checkovCalls (effects (advanceTo host0 1400
      (editScanRequests host0 [(1000, ''resource a''), (1100, ''resource a b'')] idle0))))
     = [None, Some ''resource a b'']
   \<and> map run_cancelToken (checkovCalls (effects (advanceTo host0 1400
      (editScanRequests host0 [(1000, ''resource a''), (1100, ''resource a b'')] idle0))))
     = [1, 3]"
proof -
  have r: "rapid 1000 [(1100, ''resource a b'')]"
    by (simp add: wait_def)
  have l: "fst (last [(1000, ''resource a''), (1100, ''resource a b'')]) + wait \<le> 1400"
    by (simp add: wait_def)
  from rapid_edits_dispatch_one_scan
         [OF idle0_fields(1) idle0_fields(2) idle0_fields(3) idle0_fields(4) idle0_fields(5)
             idle0_timer r l, of host0]
  obtain c where
    "checkovCalls (effects (advanceTo host0 1400
        (editScanRequests host0 [(1000, ''resource a''), (1100, ''resource a b'')] idle0)))
      = checkovCalls (effects idle0) @ [c]"
    "run_filePath c = tempFileUri host0"
    "run_scannedText c = Some (snd (last [(1000::nat, ''resource a''), (1100, ''resource a b'')]))"
    "run_cancelToken c = checkovRunCancelTokenSource idle0 + Suc (length [(1100::nat, ''resource a b'')])"
    by blast
  then show ?thesis
    by (simp add: idle0_fields call0_def tempFileUri_def host0_def tempScanFile_def)
qed

text \<open>
  How the requests of C3 arise: a change with a newline in the active, supported
  document starts a write of the temporary file, and when the write has succeeded its
  callback is the request.
\<close>

lemma edit_with_newline_writes_temp_file:
  assumes "extensionReady s" and "activeTextEditor s = Some (ce_document changeEvent)"
    and "isSupportedFileType env (doc_fileName (ce_document changeEvent)) False"
    and "\<exists>change \<in> set (ce_contentChanges changeEvent). CHR 0x0A \<in> set change"
  shows "pendingWrites (onDidChangeTextDocument env changeEvent s)
         = pendingWrites s @ [ce_getText changeEvent]"
  using assms
  by (simp add: onDidChangeTextDocument_def list_ex_iff removeDiagnosticsCommand_def
      applyDiagnostics_def ui_defs Let_def)

lemma write_settled_is_request:
  assumes "pendingWrites s = tx # ws"
  shows "step env (WriteFileSettled 0 True) time s
         = tempFileSaved env tx time (s\<lparr>pendingWrites := ws\<rparr>)"
  using assms by (simp add: step_def writeFileSettled_def dropAt_def)

lemma request_is_debounced:
  assumes "extensionReady s" and "\<not> falsy (cfg_token (config s))"
    and "getCheckovVersion (config s) = Inr v" and "activeTextEditor s = Some editor"
    and "checkovInstallation s = Some inst" and "timerInTime t s"
    and "isSupportedFileType env (doc_fileName editor) True"
  shows "isCancellationRequested (runFileScanCommand env None t s) (checkovRunCancelTokenSource s)
     \<and> checkovCalls (effects (runFileScanCommand env None t s)) = checkovCalls (effects s)
     \<and> (\<forall>t'. t' < t + wait \<longrightarrow>
           checkovCalls (effects (advanceTo env t' (runFileScanCommand env None t s)))
           = checkovCalls (effects s))
     \<and> (\<exists>c. checkovCalls (effects (advanceTo env (t + wait) (runFileScanCommand env None t s)))
              = checkovCalls (effects s) @ [c]
            \<and> run_cancelToken c = Suc (checkovRunCancelTokenSource s)
            \<and> run_filePath c = doc_fileName editor)"
proof -
  let ?s' = "runFileScanCommand env None t s"
  let ?a = "scanArgsOf None editor v s"
  have sup: "(None :: string option) = None \<longrightarrow> isSupportedFileType env (doc_fileName editor) True"
    using assms(7) by simp
  note req = runFileScanCommand_schedules [OF assms(1) assms(2) assms(3) assms(4) sup assms(6)]
  have 1: "isCancellationRequested ?s' (checkovRunCancelTokenSource s)"
    using req(2) by (simp add: isCancellationRequested_def)
  have 3: "checkovCalls (effects (advanceTo env t' ?s')) = checkovCalls (effects s)"
    if "t' < t + wait" for t'
  proof -
    from scheduled_quiet [OF req(1) that, of env] obtain due where
      "advanceTo env t' ?s' = ?s'\<lparr>runScanDebounced := (runScanDebounced ?s')\<lparr>timerId := Some due\<rparr>\<rparr>"
      by blast
    then show ?thesis using req(4) by simp
  qed
  let ?s1 = "?s'\<lparr>runScanDebounced := (runScanDebounced ?s')
                 \<lparr>timerId := None, lastArgs := None, lastInvokeTime := t + wait\<rparr>\<rparr>"
  have fire: "advanceTo env (t + wait) ?s' = runScan_func env ?a ?s1"
    using req(1) by (intro scheduled_fire) simp_all
  have "checkovInstallation ?s1 = Some inst"
    using req(8) assms(5) by simp
  then have "checkovCalls (effects (runScan_func env ?a ?s1))
      = checkovCalls (effects ?s1) @ [checkovCallOf env ?a ?s1 inst]"
    by (rule runScan_func_calls)
  with fire req(4) have 4: "checkovCalls (effects (advanceTo env (t + wait) ?s'))
      = checkovCalls (effects s) @ [checkovCallOf env ?a ?s1 inst]"
    by simp
  have 5: "run_cancelToken (checkovCallOf env ?a ?s1 inst) = Suc (checkovRunCancelTokenSource s)"
    "run_filePath (checkovCallOf env ?a ?s1 inst) = doc_fileName editor"
    by (simp_all add: checkovCallOf_def scanArgsOf_def Let_def)
  from 1 req(4) 3 4 5 show ?thesis by blast
qed

text \<open>
  C2, amended: a scan request that a save or a change of the active editor triggers
  goes through the same debounced \<open>runScan\<close> as one that an edit triggers. The handler
  cancels the token of any scan requested before and calls the scanner neither at once
  nor within the next 300 ms; if nothing else happens the scanner is called 300 ms after
  the request, with the new token. The extension is ready, a token is set, the
  configured version is valid, Checkov is installed and the file is supported.
\<close>

theorem save_and_focus_requests_are_debounced:
  assumes "extensionReady s" and "\<not> falsy (cfg_token (config s))"
    and "getCheckovVersion (config s) = Inr v"
    and "checkovInstallation s = Some inst" and "timerInTime t s"
    and "isSupportedFileType env (doc_fileName editor) False"
    and "isSupportedFileType env (doc_fileName editor) True"
    and "e = DidChangeActiveTextEditor (Some editor)
         \<or> (e = DidSaveTextDocument doc \<and> activeTextEditor s = Some editor
             \<and> doc_uri doc = doc_uri editor \<and> isSupportedFileType env (doc_fileName doc) False)"
  shows "isCancellationRequested (step env e t s) (checkovRunCancelTokenSource s)
     \<and> checkovCalls (effects (step env e t s)) = checkovCalls (effects s)
     \<and> (\<forall>t'. t' < t + wait \<longrightarrow>
           checkovCalls (effects (advanceTo env t' (step env e t s))) = checkovCalls (effects s))
     \<and> (\<exists>c. checkovCalls (effects (advanceTo env (t + wait) (step env e t s)))
              = checkovCalls (effects s) @ [c]
            \<and> run_cancelToken c = Suc (checkovRunCancelTokenSource s)
            \<and> run_filePath c = doc_fileName editor)"
  using assms(8)
proof
  assume e: "e = DidChangeActiveTextEditor (Some editor)"
  let ?s0 = "s\<lparr>activeTextEditor := Some editor\<rparr>"
  have st: "step env e t s = runFileScanCommand env None t ?s0"
    using assms(1,6) by (simp add: e step_def onDidChangeActiveTextEditor_def)
  have "timerInTime t ?s0" using assms(5) by (simp add: timerInTime_def)
  with assms have "isCancellationRequested (runFileScanCommand env None t ?s0) (checkovRunCancelTokenSource ?s0)
     \<and> checkovCalls (effects (runFileScanCommand env None t ?s0)) = checkovCalls (effects ?s0)
     \<and> (\<forall>t'. t' < t + wait \<longrightarrow>
           checkovCalls (effects (advanceTo env t' (runFileScanCommand env None t ?s0)))
           = checkovCalls (effects ?s0))
     \<and> (\<exists>c. checkovCalls (effects (advanceTo env (t + wait) (runFileScanCommand env None t ?s0)))
              = checkovCalls (effects ?s0) @ [c]
            \<and> run_cancelToken c = Suc (checkovRunCancelTokenSource ?s0)
            \<and> run_filePath c = doc_fileName editor)"
    by (intro request_is_debounced [where v = v and inst = inst]) simp_all
  then show ?thesis by (simp add: st)
next
  assume e: "e = DidSaveTextDocument doc \<and> activeTextEditor s = Some editor
             \<and> doc_uri doc = doc_uri editor \<and> isSupportedFileType env (doc_fileName doc) False"
  then have st: "step env e t s = runFileScanCommand env None t s"
    using assms(1) by (simp add: step_def onDidSaveTextDocument_def)
  from e assms show ?thesis
    unfolding st by (intro request_is_debounced [where v = v and inst = inst]) simp_all
qed

lemma save0_eq:
  "checkovCalls (effects (step host0 (DidSaveTextDocument doc0) 1000 idle0)) = [call0 1]"
  "inFlight (step host0 (DidSaveTextDocument doc0) 1000 idle0) = []"
  "timerId (runScanDebounced (step host0 (DidSaveTextDocument doc0) 1000 idle0)) = Some 1300"
  by (simp_all add: idle0_eq checkovCalls_ready0 eval_defs)

lemma focus0_eq:
  "checkovCalls (effects (step host0 (DidChangeActiveTextEditor (Some doc0)) 1000 idle0)) = [call0 1]"
  "inFlight (step host0 (DidChangeActiveTextEditor (Some doc0)) 1000 idle0) = []"
  "timerId (runScanDebounced (step host0 (DidChangeActiveTextEditor (Some doc0)) 1000 idle0)) = Some 1300"
  by (simp_all add: idle0_eq checkovCalls_ready0 eval_defs)

text \<open>
  C2 as it is stated fails: when the handler of a save or of a change of the active
  editor has run (at time 1000), the scanner has not been called and no call is in
  flight; the scan waits for the timer of \<open>debounce\<close>, due at 1300.
\<close>

theorem save_and_focus_not_immediate_counterexample:
  "checkovCalls (effects (step host0 (DidSaveTextDocument doc0) 1000 idle0))
     = checkovCalls (effects idle0)
   \<and> inFlight (step host0 (DidSaveTextDocument doc0) 1000 idle0) = []
   \<and> timerId (runScanDebounced (step host0 (DidSaveTextDocument doc0) 1000 idle0)) = Some 1300
   \<and> checkovCalls (effects (step host0 (DidChangeActiveTextEditor (Some doc0)) 1000 idle0))
     = checkovCalls (effects idle0)
   \<and> inFlight (step host0 (DidChangeActiveTextEditor (Some doc0)) 1000 idle0) = []
   \<and> timerId (runScanDebounced (step host0 (DidChangeActiveTextEditor (Some doc0)) 1000 idle0))
     = Some 1300"
  by (simp add: save0_eq focus0_eq idle0_fields)

theorem save_and_focus_requests_are_debounced_witness:
  "isCancellationRequested (step host0 (DidSaveTextDocument doc0) 1000 idle0) 1
   \<and> checkovCalls (effects (advanceTo host0 1299 (step host0 (DidSaveTextDocument doc0) 1000 idle0)))
     = [call0 1]
   \<and> map run_cancelToken
       (checkovCalls (effects (advanceTo host0 1300 (step host0 (DidSaveTextDocument doc0) 1000 idle0))))
     = [1, 2]"
proof -
  have sup: "isSupportedFileType host0 (doc_fileName doc0) False"
    "isSupportedFileType host0 (doc_fileName doc0) True"
    by (simp_all add: host0_def doc0_def)
  have e: "DidSaveTextDocument doc0 = DidChangeActiveTextEditor (Some doc0)
         \<or> (DidSaveTextDocument doc0 = DidSaveTextDocument doc0 \<and> activeTextEditor idle0 = Some doc0
             \<and> doc_uri doc0 = doc_uri doc0 \<and> isSupportedFileType host0 (doc_fileName doc0) False)"
    using sup by (simp add: idle0_fields)
  note inst = save_and_focus_requests_are_debounced
         [OF idle0_fields(1) idle0_fields(2) idle0_fields(3) idle0_fields(5) idle0_timer
             sup(1) sup(2) e, of 1000]
  from inst have a: "isCancellationRequested (step host0 (DidSaveTextDocument doc0) 1000 idle0) 1"
    by (simp add: idle0_fields)
  from inst have "\<forall>t'. t' < 1000 + wait \<longrightarrow>
      checkovCalls (effects (advanceTo host0 t' (step host0 (DidSaveTextDocument doc0) 1000 idle0)))
      = checkovCalls (effects idle0)"
    by blast
  then have b: "checkovCalls (effects (advanceTo host0 1299 (step host0 (DidSaveTextDocument doc0) 1000 idle0)))
      = [call0 1]"
    by (simp add: wait_def idle0_fields)
  from inst obtain c where
    "checkovCalls (effects (advanceTo host0 (1000 + wait) (step host0 (DidSaveTextDocument doc0) 1000 idle0)))
      = checkovCalls (effects idle0) @ [c]"
    "run_cancelToken c = Suc (checkovRunCancelTokenSource idle0)"
    by blast
  then have c: "map run_cancelToken
       (checkovCalls (effects (advanceTo host0 1300 (step host0 (DidSaveTextDocument doc0) 1000 idle0))))
     = [1, 2]"
    by (simp add: wait_def idle0_fields call0_def)
  from a b c show ?thesis by simp
qed

section \<open>Tokens in a run\<close>



lemma emit_frame [simp]:
  "inFlight (emit es s) = inFlight s"
  "runScanDebounced (emit es s) = runScanDebounced s"
  "checkovRunCancelTokenSource (emit es s) = checkovRunCancelTokenSource s"
  "activeTextEditor (emit es s) = activeTextEditor s"
  "config (emit es s) = config s"
  "checkovInstallation (emit es s) = checkovInstallation s"
  by (simp_all add: emit_def)

lemma setStatusBarItem_frame [simp]:
  "inFlight (setStatusBarItem item s) = inFlight s"
  "runScanDebounced (setStatusBarItem item s) = runScanDebounced s"
  "checkovRunCancelTokenSource (setStatusBarItem item s) = checkovRunCancelTokenSource s"
  "activeTextEditor (setStatusBarItem item s) = activeTextEditor s"
  "config (setStatusBarItem item s) = config s"
  "checkovInstallation (setStatusBarItem item s) = checkovInstallation s"
  by (simp_all add: setStatusBarItem_def)

lemmas status_defs = setReadyStatusBarItem_def setErrorStatusBarItem_def
  setPassedStatusBarItem_def setSyncingStatusBarItem_def setMissingConfigurationStatusBarItem_def

lemma applyDiagnostics_frame [simp]:
  "inFlight (applyDiagnostics doc fs s) = inFlight s"
  "runScanDebounced (applyDiagnostics doc fs s) = runScanDebounced s"
  "checkovRunCancelTokenSource (applyDiagnostics doc fs s) = checkovRunCancelTokenSource s"
  "activeTextEditor (applyDiagnostics doc fs s) = activeTextEditor s"
  "config (applyDiagnostics doc fs s) = config s"
  by (simp_all add: applyDiagnostics_def Let_def)

lemma saveCheckovResult_frame [simp]:
  "inFlight (saveCheckovResult fs s) = inFlight s"
  "runScanDebounced (saveCheckovResult fs s) = runScanDebounced s"
  "checkovRunCancelTokenSource (saveCheckovResult fs s) = checkovRunCancelTokenSource s"
  by (simp_all add: saveCheckovResult_def)

lemma removeDiagnosticsCommand_frame [simp]:
  "inFlight (removeDiagnosticsCommand s) = inFlight s"
  "runScanDebounced (removeDiagnosticsCommand s) = runScanDebounced s"
  "checkovRunCancelTokenSource (removeDiagnosticsCommand s) = checkovRunCancelTokenSource s"
  "activeTextEditor (removeDiagnosticsCommand s) = activeTextEditor s"
  "config (removeDiagnosticsCommand s) = config s"
  by (simp_all add: removeDiagnosticsCommand_def status_defs split: option.splits)

lemma installCatch_frame [simp]:
  "inFlight (installCatch s) = inFlight s"
  "runScanDebounced (installCatch s) = runScanDebounced s"
  "checkovRunCancelTokenSource (installCatch s) = checkovRunCancelTokenSource s"
  by (simp_all add: installCatch_def status_defs Let_def)

lemma assureTokenSet_frame [simp]:
  "inFlight (snd (assureTokenSet env s)) = inFlight s"
  "runScanDebounced (snd (assureTokenSet env s)) = runScanDebounced s"
  "checkovRunCancelTokenSource (snd (assureTokenSet env s)) = checkovRunCancelTokenSource s"
  "activeTextEditor (snd (assureTokenSet env s)) = activeTextEditor s"
  "config (snd (assureTokenSet env s)) = config s"
  by (simp_all add: assureTokenSet_def status_defs Let_def)

lemma runScan_resume_frame [simp]:
  "inFlight (runScan_resume a produced s) = inFlight s"
  "runScanDebounced (runScan_resume a produced s) = runScanDebounced s"
  "checkovRunCancelTokenSource (runScan_resume a produced s) = checkovRunCancelTokenSource s"
  by (simp_all add: runScan_resume_def runScan_catch_def status_defs Let_def split: option.splits)








lemma calls_frame [simp]:
  "checkovCalls (effects (setStatusBarItem item s)) = checkovCalls (effects s)"
  "checkovCalls (effects (applyDiagnostics doc fs s)) = checkovCalls (effects s)"
  "checkovCalls (effects (resetCancelTokenSource s)) = checkovCalls (effects s)"
  "checkovCalls (effects (runScan a t s)) = checkovCalls (effects s)"
  by (simp_all add: setStatusBarItem_def applyDiagnostics_def resetCancelTokenSource_def
      runScan_def emit_def Let_def)

lemma calls_emit [simp]:
  "checkovCalls (effects (emit es s)) = checkovCalls (effects s) @ checkovCalls es"
  by (simp add: emit_def)

lemma calls_frame2 [simp]:
  "checkovCalls (effects (removeDiagnosticsCommand s)) = checkovCalls (effects s)"
  "checkovCalls (effects (snd (assureTokenSet env s))) = checkovCalls (effects s)"
  by (simp_all add: removeDiagnosticsCommand_def assureTokenSet_def status_defs Let_def
      split: option.splits)






end
